theory Spec2Isabelle
  imports Main "HOL-Library.Word" "HOL-Library.Log_Nat"
begin

unbundle bit_operations_syntax

section \<open>Machine types, errors and byte-slice primitives\<close>

type_synonym u8 = "8 word"
type_synonym u16 = "16 word"
type_synonym u32 = "32 word"

text \<open>
  The sentinel errors of the package. \<open>RuntimePanic\<close> is not a Go error value: it stands
  for the run-time panic of an index or a slice bound out of range. The formatted context
  that \<^verbatim>\<open>fmt.Errorf("%w expected(..) actual(..)", ...)\<close> wraps around a sentinel is left
  out; the sentinel identifies the failure.
\<close>

datatype error =
    ErrPacketTooShort | ErrBadVersion | ErrWrongPadding | ErrWrongFeedbackType
  | ErrWrongPayloadType | ErrHeaderTooSmall | ErrSSRCMustBeZero
  | ErrMissingREMBidentifier | ErrSSRCNumAndLengthMismatch | ErrBadLength
  | ErrWrongType | ErrInvalidBitrate | ErrWrongMarshalSize
  | ErrInvalidSizeOrStartIndex | ErrInvalidHeader | RuntimePanic

text \<open>\<^verbatim>\<open>b[off:]\<close>: the slice bound is checked against the length.\<close>

definition slice_from :: "u8 list \<Rightarrow> nat \<Rightarrow> error + u8 list" where
  "slice_from b off = (if off \<le> length b then Inr (drop off b) else Inl RuntimePanic)"

definition be16 :: "u16 \<Rightarrow> u8 list" where
  "be16 v = [ucast (drop_bit 8 v), ucast v]"

definition be32 :: "u32 \<Rightarrow> u8 list" where
  "be32 v = [ucast (drop_bit 24 v), ucast (drop_bit 16 v), ucast (drop_bit 8 v), ucast v]"

text \<open>\<^verbatim>\<open>binary.BigEndian.Uint16(b)\<close> and \<^verbatim>\<open>Uint32(b)\<close> panic on a slice that is too short.\<close>

definition Uint16 :: "u8 list \<Rightarrow> error + u16" where
  "Uint16 b =
     (if length b < 2 then Inl RuntimePanic
      else Inr (push_bit 8 (ucast (b ! 0)) OR ucast (b ! 1)))"

definition Uint32 :: "u8 list \<Rightarrow> error + u32" where
  "Uint32 b =
     (if length b < 4 then Inl RuntimePanic
      else Inr (push_bit 24 (ucast (b ! 0)) OR push_bit 16 (ucast (b ! 1))
                OR push_bit 8 (ucast (b ! 2)) OR ucast (b ! 3)))"

text \<open>\<^verbatim>\<open>binary.BigEndian.PutUint32(b, v)\<close>: the bound is checked before the first store.\<close>

definition PutUint16 :: "u8 list \<Rightarrow> u16 \<Rightarrow> error + u8 list" where
  "PutUint16 b v =
     (if length b < 2 then Inl RuntimePanic else Inr (be16 v @ drop 2 b))"

definition PutUint32 :: "u8 list \<Rightarrow> u32 \<Rightarrow> error + u8 list" where
  "PutUint32 b v =
     (if length b < 4 then Inl RuntimePanic else Inr (be32 v @ drop 4 b))"

text \<open>
  A store through a sub-slice \<^verbatim>\<open>b[off:]\<close> is a store into \<open>b\<close>: the bytes before \<open>off\<close>
  stay, the rest is what the callee left in the sub-slice.
\<close>

definition PutUint32_from :: "u8 list \<Rightarrow> nat \<Rightarrow> u32 \<Rightarrow> error + u8 list" where
  "PutUint32_from b off v =
     (case slice_from b off of
        Inl e \<Rightarrow> Inl e
      | Inr s \<Rightarrow> (case PutUint32 s v of Inl e \<Rightarrow> Inl e | Inr s' \<Rightarrow> Inr (take off b @ s')))"

definition Uint32_from :: "u8 list \<Rightarrow> nat \<Rightarrow> error + u32" where
  "Uint32_from b off =
     (case slice_from b off of Inl e \<Rightarrow> Inl e | Inr s \<Rightarrow> Uint32 s)"

section \<open>float32 as its IEEE-754 bit pattern\<close>

text \<open>
  A \<^verbatim>\<open>float32\<close> is modelled by its 32 bits (\<^verbatim>\<open>math.Float32bits\<close>): sign bit 31,
  biased exponent in bits 30..23, fraction in bits 22..0. The magnitude of a value is kept
  as the natural number \<open>|x| * 2^149\<close>, which is exact for every finite float32; the
  pattern of an infinity gets \<open>2^277\<close>, above every finite magnitude.
\<close>

type_synonym float32 = "32 word"

definition f32_sign :: "float32 \<Rightarrow> bool" where
  "f32_sign w = (2 ^ 31 \<le> unat w)"

definition f32_exp :: "float32 \<Rightarrow> nat" where
  "f32_exp w = (unat w div 2 ^ 23) mod 256"

definition f32_frac :: "float32 \<Rightarrow> nat" where
  "f32_frac w = unat w mod 2 ^ 23"

definition f32_is_nan :: "float32 \<Rightarrow> bool" where
  "f32_is_nan w = (f32_exp w = 255 \<and> f32_frac w \<noteq> 0)"

definition f32_is_inf :: "float32 \<Rightarrow> bool" where
  "f32_is_inf w = (f32_exp w = 255 \<and> f32_frac w = 0)"

definition f32_mag :: "float32 \<Rightarrow> nat" where
  "f32_mag w =
     (if f32_exp w = 0 then f32_frac w
      else (2 ^ 23 + f32_frac w) * 2 ^ (f32_exp w - 1))"

definition f32_scaled :: "float32 \<Rightarrow> int" where
  "f32_scaled w = (if f32_sign w then - int (f32_mag w) else int (f32_mag w))"

text \<open>The value of a finite float32 as a real number.\<close>

definition f32_real :: "float32 \<Rightarrow> real" where
  "f32_real w = real_of_int (f32_scaled w) / 2 ^ 149"

text \<open>Comparisons: false as soon as one operand is a NaN.\<close>

definition f32_lt :: "float32 \<Rightarrow> float32 \<Rightarrow> bool" where
  "f32_lt a b = (\<not> f32_is_nan a \<and> \<not> f32_is_nan b \<and> f32_scaled a < f32_scaled b)"

definition f32_ge :: "float32 \<Rightarrow> float32 \<Rightarrow> bool" where
  "f32_ge a b = (\<not> f32_is_nan a \<and> \<not> f32_is_nan b \<and> f32_scaled b \<le> f32_scaled a)"

text \<open>
  Rounding to nearest, ties to even, of the positive rational \<open>n / d\<close>. The result is
  the bit pattern without the sign bit. \<open>floorlog 2\<close> is the bit length, so \<open>t\<close> below is
  \<open>\<lfloor>log\<^sub>2 (n / d)\<rfloor>\<close>; \<open>e\<close> is the biased exponent to try (1 for the subnormal range) and
  the unit in the last place is \<open>2^(e - 150)\<close>. Adding the rounded significand to
  \<open>(e - 1) * 2^23\<close> carries into the exponent when the significand rounds up to \<open>2^24\<close>
  and leaves exponent 0 for a subnormal. An overflow gives the infinity.
\<close>

definition rne_div :: "nat \<Rightarrow> nat \<Rightarrow> nat" where
  "rne_div n d =
     (let q = n div d; r = n mod d in
      if 2 * r < d then q
      else if d < 2 * r then q + 1
      else if even q then q else q + 1)"

definition flog2_ratio :: "nat \<Rightarrow> nat \<Rightarrow> int" where
  "flog2_ratio n d =
     (let k = int (floorlog 2 n) - int (floorlog 2 d) in
      if d * 2 ^ nat k \<le> n * 2 ^ nat (- k) then k else k - 1)"

definition f32_round_ratio :: "nat \<Rightarrow> nat \<Rightarrow> nat" where
  "f32_round_ratio n d =
     (let t = flog2_ratio n d;
          e = max 1 (t + 127);
          u = e - 150;
          m = rne_div (n * 2 ^ nat (- u)) (d * 2 ^ nat u);
          bits = nat (e - 1) * 2 ^ 23 + m
      in if 255 * 2 ^ 23 \<le> bits then 255 * 2 ^ 23 else bits)"

definition f32_pack :: "bool \<Rightarrow> nat \<Rightarrow> float32" where
  "f32_pack s bits = of_nat ((if s then 2 ^ 31 else 0) + bits)"

definition f32_qnan :: float32 where
  "f32_qnan = 0x7FC00000"

text \<open>
  Division, correctly rounded (the float32 division of the hardware). The sign of the
  result is the exclusive or of the signs.
\<close>

definition f32_div :: "float32 \<Rightarrow> float32 \<Rightarrow> float32" where
  "f32_div a b =
     (let s = (f32_sign a \<noteq> f32_sign b) in
      if f32_is_nan a \<or> f32_is_nan b then f32_qnan
      else if f32_is_inf a then (if f32_is_inf b then f32_qnan else f32_pack s (255 * 2 ^ 23))
      else if f32_is_inf b then f32_pack s 0
      else if f32_mag b = 0 then (if f32_mag a = 0 then f32_qnan else f32_pack s (255 * 2 ^ 23))
      else if f32_mag a = 0 then f32_pack s 0
      else f32_pack s (f32_round_ratio (f32_mag a) (f32_mag b)))"

text \<open>
  \<^verbatim>\<open>uint(math.Floor(float64(x)))\<close>. The widening to float64 and the floor are exact. Go
  leaves the conversion of a NaN or of an out-of-range value to the implementation; the
  common targets give a value whose low 24 bits are zero, which is 0 here. On the path
  that reaches the conversion in \<^verbatim>\<open>putBitrate\<close> the value is a NaN or lies in
  \<open>[0, 2^18)\<close>.
\<close>

definition f32_floor_uint :: "float32 \<Rightarrow> nat" where
  "f32_floor_uint x =
     (if f32_is_nan x \<or> f32_scaled x < 0 \<or> 2 ^ 64 * 2 ^ 149 \<le> f32_scaled x then 0
      else nat (f32_scaled x div 2 ^ 149))"

text \<open>The float32 constants of the source, as bit patterns.\<close>

definition f32_zero :: float32 where "f32_zero = 0x00000000"
definition f32_two :: float32 where "f32_two = 0x40000000"
definition f32_thousand :: float32 where "f32_thousand = 0x447A0000"
definition f32_two18 :: float32 where "f32_two18 = 0x48800000"
definition bitratemax :: float32 where "bitratemax = 0x67FFFFC0"

section \<open>The compact bitrate codec\<close>

text \<open>
  \<^verbatim>\<open>for bitrate >= (1 << 18) { bitrate /= 2.0; exp++ }\<close>. Taken alone the loop does not
  return on an infinity, so it is a partial function.
\<close>

partial_function (option) putBitrate_loop :: "float32 \<Rightarrow> nat \<Rightarrow> (float32 \<times> nat) option" where
  [code]: "putBitrate_loop bitrate ex =
     (if f32_ge bitrate f32_two18 then putBitrate_loop (f32_div bitrate f32_two) (ex + 1)
      else Some (bitrate, ex))"

text \<open>
  \<open>putBitrate bitrate buf\<close> returns the buffer as the call leaves it and the error it
  returns (\<open>None\<close> for \<^verbatim>\<open>nil\<close>, \<open>RuntimePanic\<close> when a store is out of range). The outer
  \<open>option\<close> is \<open>None\<close> when the call does not return.
\<close>

definition store8 :: "u8 list \<Rightarrow> nat \<Rightarrow> u8 \<Rightarrow> error + u8 list" where
  "store8 b i v = (if i < length b then Inr (b[i := v]) else Inl RuntimePanic)"

definition putBitrate :: "float32 \<Rightarrow> u8 list \<Rightarrow> (u8 list \<times> error option) option" where
  "putBitrate bitrate0 buf =
     (let bitrate = (if f32_ge bitrate0 bitratemax then bitratemax else bitrate0) in
      if f32_lt bitrate f32_zero then Some (buf, Some ErrInvalidBitrate)
      else
        case putBitrate_loop bitrate 0 of
          None \<Rightarrow> None
        | Some (bitrate, ex) \<Rightarrow>
            if 2 ^ 6 \<le> ex then Some (buf, Some ErrInvalidBitrate)
            else
              let mantissa = f32_floor_uint bitrate in
              (case store8 buf 0 (of_nat (ex * 4) OR of_nat (mantissa div 2 ^ 16)) of
                 Inl e \<Rightarrow> Some (buf, Some e)
               | Inr buf1 \<Rightarrow>
                   (case store8 buf1 1 (of_nat (mantissa div 2 ^ 8)) of
                      Inl e \<Rightarrow> Some (buf1, Some e)
                    | Inr buf2 \<Rightarrow>
                        (case store8 buf2 2 (of_nat mantissa) of
                           Inl e \<Rightarrow> Some (buf2, Some e)
                         | Inr buf3 \<Rightarrow> Some (buf3, None)))))"

definition mantissamax :: u32 where
  "mantissamax = 0x7FFFFF"

text \<open>
  \<^verbatim>\<open>for (mantissa & (mantissamax + 1)) == 0 { exp--; mantissa *= 2 }\<close> on a byte and a
  32-bit word. Taken alone it does not return on mantissa 0.
\<close>

partial_function (option) loadBitrate_loop :: "u8 \<Rightarrow> u32 \<Rightarrow> (u8 \<times> u32) option" where
  [code]: "loadBitrate_loop ex mantissa =
     (if mantissa AND (mantissamax + 1) = 0 then loadBitrate_loop (ex - 1) (mantissa * 2)
      else Some (ex, mantissa))"

definition loadBitrate :: "u8 list \<Rightarrow> (error + float32) option" where
  "loadBitrate buf =
     (if length buf < 3 then Some (Inl RuntimePanic)
      else
        let ex = drop_bit 2 (buf ! 0);
            ex = ex + 127;
            ex = ex + 23;
            mantissa = push_bit 16 (ucast (buf ! 0 AND 3)) OR push_bit 8 (ucast (buf ! 1))
                       OR ucast (buf ! 2)
        in case (if mantissa \<noteq> 0 then loadBitrate_loop ex mantissa else Some (ex, mantissa)) of
             None \<Rightarrow> None
           | Some (ex, mantissa) \<Rightarrow>
               Some (Inr (push_bit 23 (ucast ex) OR (mantissa AND mantissamax))))"


text \<open>
  \<^verbatim>\<open>for bitrate >= 1000.0 && powers < len(bitUnits) { bitrate /= 1000.0; powers++ }\<close>
  and the indexing \<^verbatim>\<open>bitUnits[powers]\<close> that follows it.
\<close>

definition bitUnits :: "string list" where
  "bitUnits = [''b'', ''Kb'', ''Mb'', ''Gb'', ''Tb'', ''Pb'', ''Eb'']"

function bitrateUnit_loop :: "float32 \<Rightarrow> nat \<Rightarrow> nat" where
  "bitrateUnit_loop bitrate powers =
     (if f32_ge bitrate f32_thousand \<and> powers < length bitUnits
      then bitrateUnit_loop (f32_div bitrate f32_thousand) (powers + 1)
      else powers)"
  by pat_completeness auto
termination
  by (relation "measure (\<lambda>(bitrate, powers). length bitUnits - powers)") auto

declare bitrateUnit_loop.simps [simp del]

definition bitrateUnit :: "float32 \<Rightarrow> error + string" where
  "bitrateUnit bitrate =
     (let powers = bitrateUnit_loop bitrate 0 in
      if powers < length bitUnits then Inr (bitUnits ! powers) else Inl RuntimePanic)"

section \<open>The common header\<close>

text \<open>
  Modelled from the spec: the \<^verbatim>\<open>Header\<close> type, its \<^verbatim>\<open>Marshal\<close> and \<^verbatim>\<open>Unmarshal\<close>, and the
  constants \<^verbatim>\<open>headerLength\<close>, \<^verbatim>\<open>ssrcLength\<close>, \<^verbatim>\<open>FormatREMB\<close>, \<^verbatim>\<open>FormatTMMBR\<close>,
  \<^verbatim>\<open>FormatTMMBN\<close>, \<^verbatim>\<open>TypeTransportSpecificFeedback\<close> and
  \<^verbatim>\<open>TypePayloadSpecificFeedback\<close> are not among the source files. The spec gives the
  header as a fixed 4-byte prefix: 2-bit version (must be 2), 1-bit padding, 5-bit
  format/count, 8-bit payload type, 16-bit big-endian length in 32-bit words minus one.
  A count that does not fit the 5 bits cannot be written.
\<close>

record Header =
  Padding :: bool
  Count :: u8
  Type :: u8
  Length :: u16

definition headerLength :: nat where "headerLength = 4"
definition ssrcLength :: nat where "ssrcLength = 4"
definition FormatTMMBR :: u8 where "FormatTMMBR = 3"
definition FormatTMMBN :: u8 where "FormatTMMBN = 4"
definition FormatREMB :: u8 where "FormatREMB = 15"
definition TypeTransportSpecificFeedback :: u8 where "TypeTransportSpecificFeedback = 205"
definition TypePayloadSpecificFeedback :: u8 where "TypePayloadSpecificFeedback = 206"

definition Header_Marshal :: "Header \<Rightarrow> error + u8 list" where
  "Header_Marshal h =
     (if 31 < Count h then Inl ErrInvalidHeader
      else Inr ([push_bit 6 2 OR (if Padding h then push_bit 5 1 else 0) OR Count h, Type h]
                @ be16 (Length h)))"

definition Header_Unmarshal :: "u8 list \<Rightarrow> error + Header" where
  "Header_Unmarshal rawPacket =
     (if length rawPacket < headerLength then Inl ErrPacketTooShort
      else if drop_bit 6 (rawPacket ! 0) \<noteq> 2 then Inl ErrBadVersion
      else Inr \<lparr>Padding = (drop_bit 5 (rawPacket ! 0) AND 1 = 1),
                Count = rawPacket ! 0 AND 31,
                Type = rawPacket ! 1,
                Length = push_bit 8 (ucast (rawPacket ! 2)) OR ucast (rawPacket ! 3)\<rparr>)"

section \<open>ReceiverEstimatedMaximumBitrate\<close>

record ReceiverEstimatedMaximumBitrate =
  SenderSSRC :: u32
  Bitrate :: float32
  SSRCs :: "u32 list"

text \<open>
  Go's \<^verbatim>\<open>int\<close> is 64 bits wide and no slice is long enough to overflow it: sizes, offsets
  and counts of type \<^verbatim>\<open>int\<close> are natural numbers here. Conversions to \<^verbatim>\<open>uint16\<close> and
  \<^verbatim>\<open>byte\<close> truncate (\<open>of_nat\<close> into the word type).
\<close>

definition REMB_MarshalSize :: "ReceiverEstimatedMaximumBitrate \<Rightarrow> nat" where
  "REMB_MarshalSize p = 20 + 4 * length (SSRCs p)"

definition REMB_Header :: "ReceiverEstimatedMaximumBitrate \<Rightarrow> Header" where
  "REMB_Header p =
     \<lparr>Padding = False, Count = FormatREMB, Type = TypePayloadSpecificFeedback,
      Length = of_nat (REMB_MarshalSize p div 4 - 1)\<rparr>"

text \<open>\<^verbatim>\<open>b[lo:hi]\<close>, and a 32-bit store through it.\<close>

definition slice :: "u8 list \<Rightarrow> nat \<Rightarrow> nat \<Rightarrow> error + u8 list" where
  "slice b lo hi =
     (if lo \<le> hi \<and> hi \<le> length b then Inr (take (hi - lo) (drop lo b)) else Inl RuntimePanic)"

definition PutUint32_at :: "u8 list \<Rightarrow> nat \<Rightarrow> nat \<Rightarrow> u32 \<Rightarrow> error + u8 list" where
  "PutUint32_at b lo hi v =
     (case slice b lo hi of
        Inl e \<Rightarrow> Inl e
      | Inr s \<Rightarrow>
          (case PutUint32 s v of
             Inl e \<Rightarrow> Inl e
           | Inr s' \<Rightarrow> Inr (take lo b @ s' @ drop hi b)))"

definition Uint32_at :: "u8 list \<Rightarrow> nat \<Rightarrow> nat \<Rightarrow> error + u32" where
  "Uint32_at b lo hi = (case slice b lo hi of Inl e \<Rightarrow> Inl e | Inr s \<Rightarrow> Uint32 s)"

text \<open>
  \<^verbatim>\<open>for _, ssrc := range p.SSRCs { PutUint32(buf[n:n+4], ssrc); n += 4 }\<close>: the result is
  the buffer and either the panic or the final \<open>n\<close>.
\<close>

fun REMB_MarshalTo_loop :: "u32 list \<Rightarrow> nat \<Rightarrow> u8 list \<Rightarrow> u8 list \<times> (error + nat)" where
  "REMB_MarshalTo_loop [] n buf = (buf, Inr n)"
| "REMB_MarshalTo_loop (ssrc # rest) n buf =
     (case PutUint32_at buf n (n + 4) ssrc of
        Inl e \<Rightarrow> (buf, Inl e)
      | Inr buf' \<Rightarrow> REMB_MarshalTo_loop rest (n + 4) buf')"

text \<open>
  \<open>REMB_MarshalTo p buf\<close> returns the caller's buffer as the call leaves it, with the
  error or the number of bytes written. The stores at the fixed offsets below 20 follow
  the check \<^verbatim>\<open>len(buf) < size\<close> with \<open>size \<ge> 20\<close>, so they are in range.
\<close>

definition REMB_MarshalTo ::
  "ReceiverEstimatedMaximumBitrate \<Rightarrow> u8 list \<Rightarrow> (u8 list \<times> (error + nat)) option" where
  "REMB_MarshalTo p buf =
     (let sz = REMB_MarshalSize p in
      if length buf < sz then Some (buf, Inl ErrPacketTooShort)
      else
        let buf = buf[0 := 143, 1 := 206];
            len = (of_nat (REMB_MarshalSize p div 4 - 1) :: u16);
            buf = take 2 buf @ be16 len @ drop 4 buf;
            buf = take 4 buf @ be32 (SenderSSRC p) @ drop 8 buf;
            buf = take 8 buf @ be32 0 @ drop 12 buf;
            buf = buf[12 := 0x52, 13 := 0x45, 14 := 0x4D, 15 := 0x42];
            buf = buf[16 := of_nat (length (SSRCs p))]
        in case putBitrate (Bitrate p) (take 3 (drop 17 buf)) of
             None \<Rightarrow> None
           | Some (s, Some e) \<Rightarrow> Some (take 17 buf @ s @ drop 20 buf, Inl e)
           | Some (s, None) \<Rightarrow>
               Some (REMB_MarshalTo_loop (SSRCs p) 20 (take 17 buf @ s @ drop 20 buf)))"

definition REMB_Marshal :: "ReceiverEstimatedMaximumBitrate \<Rightarrow> (error + u8 list) option" where
  "REMB_Marshal p =
     (let buf = replicate (REMB_MarshalSize p) 0 in
      case REMB_MarshalTo p buf of
        None \<Rightarrow> None
      | Some (buf, Inl e) \<Rightarrow> Some (Inl e)
      | Some (buf, Inr n) \<Rightarrow>
          if n \<noteq> length buf then Some (Inl ErrWrongMarshalSize) else Some (Inr buf))"

text \<open>
  \<^verbatim>\<open>for n := 20; n < size; n += 4 { p.SSRCs = append(p.SSRCs, Uint32(buf[n:n+4])) }\<close>.
  The receiver is passed along and returned as the call leaves it.
\<close>

function REMB_Unmarshal_loop ::
  "nat \<Rightarrow> nat \<Rightarrow> u8 list \<Rightarrow> ReceiverEstimatedMaximumBitrate
     \<Rightarrow> ReceiverEstimatedMaximumBitrate \<times> error option" where
  "REMB_Unmarshal_loop n sz buf p =
     (if n < sz then
        (case Uint32_at buf n (n + 4) of
           Inl e \<Rightarrow> (p, Some e)
         | Inr ssrc \<Rightarrow> REMB_Unmarshal_loop (n + 4) sz buf (p\<lparr>SSRCs := SSRCs p @ [ssrc]\<rparr>))
      else (p, None))"
  by pat_completeness auto
termination
  by (relation "measure (\<lambda>(n, sz, buf, p). sz - n)") auto

declare REMB_Unmarshal_loop.simps [simp del]

text \<open>
  \<open>REMB_Unmarshal p buf\<close>: the receiver after the call and the returned error (\<open>None\<close>
  for \<^verbatim>\<open>nil\<close>). \<open>length\<close> is a \<^verbatim>\<open>uint16\<close>, so \<^verbatim>\<open>(length + 1) * 4\<close> is computed in 16 bits
  before the conversion to \<^verbatim>\<open>int\<close>. The reads at fixed offsets below 20 follow the check
  \<^verbatim>\<open>len(buf) < 20\<close>.
\<close>

definition REMB_Unmarshal ::
  "ReceiverEstimatedMaximumBitrate \<Rightarrow> u8 list
     \<Rightarrow> (ReceiverEstimatedMaximumBitrate \<times> error option) option" where
  "REMB_Unmarshal p buf =
     (if length buf < 20 then Some (p, Some ErrPacketTooShort)
      else if drop_bit 6 (buf ! 0) \<noteq> 2 then Some (p, Some ErrBadVersion)
      else if drop_bit 5 (buf ! 0) AND 1 \<noteq> 0 then Some (p, Some ErrWrongPadding)
      else if buf ! 0 AND 31 \<noteq> 15 then Some (p, Some ErrWrongFeedbackType)
      else if buf ! 1 \<noteq> 206 then Some (p, Some ErrWrongPayloadType)
      else
        let len = (push_bit 8 (ucast (buf ! 2)) OR ucast (buf ! 3) :: u16);
            sz = unat ((len + 1) * 4)
        in
        if sz < 20 then Some (p, Some ErrHeaderTooSmall)
        else if length buf < sz then Some (p, Some ErrPacketTooShort)
        else
          case Uint32_at buf 4 8 of
            Inl e \<Rightarrow> Some (p, Some e)
          | Inr sender \<Rightarrow>
              let p = p\<lparr>SenderSSRC := sender\<rparr> in
              (case Uint32_at buf 8 12 of
                 Inl e \<Rightarrow> Some (p, Some e)
               | Inr media \<Rightarrow>
                   if media \<noteq> 0 then Some (p, Some ErrSSRCMustBeZero)
                   else if take 4 (drop 12 buf) \<noteq> [0x52, 0x45, 0x4D, 0x42]
                   then Some (p, Some ErrMissingREMBidentifier)
                   else
                     let num = unat (buf ! 16) in
                     if sz \<noteq> 20 + 4 * num then Some (p, Some ErrSSRCNumAndLengthMismatch)
                     else
                       (case loadBitrate (take 3 (drop 17 buf)) of
                          None \<Rightarrow> None
                        | Some (Inl e) \<Rightarrow> Some (p, Some e)
                        | Some (Inr bitrate) \<Rightarrow>
                            Some (REMB_Unmarshal_loop 20 sz buf
                                    (p\<lparr>Bitrate := bitrate, SSRCs := []\<rparr>)))))"

section \<open>TMMBR and TMMBN\<close>

text \<open>
  \<^verbatim>\<open>TMMBR\<close> and \<^verbatim>\<open>TMMBN\<close>, and their entry types, have the same fields, and their
  methods differ in nothing but the format constant (\<^verbatim>\<open>FormatTMMBR\<close> or
  \<^verbatim>\<open>FormatTMMBN\<close>). One record and one set of functions, with the format as a parameter,
  model both; the methods of each type are the two instances.
\<close>

record TMMBEntry =
  MediaSSRC :: u32
  EntryBitrate :: float32

record TMMB =
  TMMBSenderSSRC :: u32
  Entries :: "TMMBEntry list"

definition TMMB_MarshalSize :: "TMMB \<Rightarrow> nat" where
  "TMMB_MarshalSize p = headerLength + ssrcLength * 2 + length (Entries p) * (2 * ssrcLength)"

definition TMMB_Header :: "u8 \<Rightarrow> TMMB \<Rightarrow> Header" where
  "TMMB_Header fmt p =
     \<lparr>Padding = False, Count = fmt, Type = TypeTransportSpecificFeedback,
      Length = of_nat (TMMB_MarshalSize p div 4 - 1)\<rparr>"

text \<open>\<^verbatim>\<open>copy(dst, src)\<close> copies as many bytes as the shorter of the two holds.\<close>

definition copy_bytes :: "u8 list \<Rightarrow> u8 list \<Rightarrow> u8 list" where
  "copy_bytes dst src =
     (let n = min (length dst) (length src) in take n src @ drop n dst)"

text \<open>
  The loop over the entries writes into \<open>body\<close>, the packet after the header. It returns
  \<open>body\<close> as it leaves it and the error that ended it, if any.
\<close>

fun TMMB_Marshal_loop ::
  "nat \<Rightarrow> TMMBEntry list \<Rightarrow> u8 list \<Rightarrow> (u8 list \<times> error option) option" where
  "TMMB_Marshal_loop i [] body = Some (body, None)"
| "TMMB_Marshal_loop i (entry # rest) body =
     (let offset = ssrcLength * 2 + i * (2 * ssrcLength) in
      case PutUint32_from body offset (MediaSSRC entry) of
        Inl e \<Rightarrow> Some (body, Some e)
      | Inr body1 \<Rightarrow>
          (case slice_from body1 (offset + ssrcLength) of
             Inl e \<Rightarrow> Some (body1, Some e)
           | Inr s \<Rightarrow>
               (case putBitrate (EntryBitrate entry) s of
                  None \<Rightarrow> None
                | Some (s', Some e) \<Rightarrow> Some (take (offset + ssrcLength) body1 @ s', Some e)
                | Some (s', None) \<Rightarrow>
                    TMMB_Marshal_loop (i + 1) rest (take (offset + ssrcLength) body1 @ s'))))"

definition TMMB_Marshal :: "u8 \<Rightarrow> TMMB \<Rightarrow> (error + u8 list) option" where
  "TMMB_Marshal fmt p =
     (let packetSize = TMMB_MarshalSize p;
          rawPacket = replicate packetSize 0;
          header = TMMB_Header fmt p
      in case Header_Marshal header of
           Inl e \<Rightarrow> Some (Inl e)
         | Inr headerBuf \<Rightarrow>
             let rawPacket = copy_bytes rawPacket headerBuf in
             (case slice_from rawPacket headerLength of
                Inl e \<Rightarrow> Some (Inl e)
              | Inr body \<Rightarrow>
                  (case PutUint32 body (TMMBSenderSSRC p) of
                     Inl e \<Rightarrow> Some (Inl e)
                   | Inr body1 \<Rightarrow>
                       (case PutUint32_from body1 ssrcLength 0 of
                          Inl e \<Rightarrow> Some (Inl e)
                        | Inr body2 \<Rightarrow>
                            (case TMMB_Marshal_loop 0 (Entries p) body2 of
                               None \<Rightarrow> None
                             | Some (body3, Some e) \<Rightarrow> Some (Inl e)
                             | Some (body3, None) \<Rightarrow>
                                 Some (Inr (take headerLength rawPacket @ body3)))))))"

text \<open>
  The loop of \<^verbatim>\<open>Unmarshal\<close> over \<open>entryCount\<close> entries; \<open>p.Entries\<close> has that length, so
  \<^verbatim>\<open>&p.Entries[i]\<close> is in range.
\<close>

function TMMB_Unmarshal_loop ::
  "nat \<Rightarrow> nat \<Rightarrow> u8 list \<Rightarrow> TMMB \<Rightarrow> (TMMB \<times> error option) option" where
  "TMMB_Unmarshal_loop i entryCount body p =
     (if i < entryCount then
        (let offset = ssrcLength * 2 + i * (2 * ssrcLength) in
         case Uint32_from body offset of
           Inl e \<Rightarrow> Some (p, Some e)
         | Inr ssrc \<Rightarrow>
             let p1 = p\<lparr>Entries := (Entries p)[i := (Entries p ! i)\<lparr>MediaSSRC := ssrc\<rparr>]\<rparr> in
             (case slice_from body (offset + ssrcLength) of
                Inl e \<Rightarrow> Some (p1, Some e)
              | Inr s \<Rightarrow>
                  (case loadBitrate s of
                     None \<Rightarrow> None
                   | Some (Inl e) \<Rightarrow> Some (p1, Some e)
                   | Some (Inr bitrate) \<Rightarrow>
                       TMMB_Unmarshal_loop (i + 1) entryCount body
                         (p1\<lparr>Entries := (Entries p1)[i := (Entries p1 ! i)\<lparr>EntryBitrate := bitrate\<rparr>]\<rparr>))))
      else Some (p, None))"
  by pat_completeness auto
termination
  by (relation "measure (\<lambda>(i, entryCount, body, p). entryCount - i)") auto

declare TMMB_Unmarshal_loop.simps [simp del]

text \<open>
  \<open>header.Length\<close> is a \<^verbatim>\<open>uint16\<close>: \<^verbatim>\<open>(header.Length + 1) * 4\<close> and
  \<^verbatim>\<open>(header.Length - 2) / 2\<close> are computed in 16 bits before the conversion to \<^verbatim>\<open>int\<close>.
\<close>

definition TMMB_Unmarshal :: "u8 \<Rightarrow> TMMB \<Rightarrow> u8 list \<Rightarrow> (TMMB \<times> error option) option" where
  "TMMB_Unmarshal fmt p rawPacket =
     (if length rawPacket < headerLength + ssrcLength * 2 then Some (p, Some ErrPacketTooShort)
      else
        case Header_Unmarshal rawPacket of
          Inl e \<Rightarrow> Some (p, Some e)
        | Inr header \<Rightarrow>
            let expectedSize = unat ((Length header + 1) * 4) in
            if length rawPacket < expectedSize then Some (p, Some ErrBadLength)
            else if Type header \<noteq> TypeTransportSpecificFeedback \<or> Count header \<noteq> fmt
            then Some (p, Some ErrWrongType)
            else
              (case slice_from rawPacket headerLength of
                 Inl e \<Rightarrow> Some (p, Some e)
               | Inr body \<Rightarrow>
                   (case Uint32 body of
                      Inl e \<Rightarrow> Some (p, Some e)
                    | Inr sender \<Rightarrow>
                        let p1 = p\<lparr>TMMBSenderSSRC := sender\<rparr>;
                            entryCount = unat ((Length header - 2) div 2);
                            p2 = p1\<lparr>Entries :=
                                      replicate entryCount \<lparr>MediaSSRC = 0, EntryBitrate = f32_zero\<rparr>\<rparr>
                        in TMMB_Unmarshal_loop 0 entryCount body p2)))"

definition TMMBR_Marshal :: "TMMB \<Rightarrow> (error + u8 list) option" where
  "TMMBR_Marshal = TMMB_Marshal FormatTMMBR"

definition TMMBR_Unmarshal :: "TMMB \<Rightarrow> u8 list \<Rightarrow> (TMMB \<times> error option) option" where
  "TMMBR_Unmarshal = TMMB_Unmarshal FormatTMMBR"

definition TMMBR_Header :: "TMMB \<Rightarrow> Header" where
  "TMMBR_Header = TMMB_Header FormatTMMBR"

definition TMMBN_Marshal :: "TMMB \<Rightarrow> (error + u8 list) option" where
  "TMMBN_Marshal = TMMB_Marshal FormatTMMBN"

definition TMMBN_Unmarshal :: "TMMB \<Rightarrow> u8 list \<Rightarrow> (TMMB \<times> error option) option" where
  "TMMBN_Unmarshal = TMMB_Unmarshal FormatTMMBN"

definition TMMBN_Header :: "TMMB \<Rightarrow> Header" where
  "TMMBN_Header = TMMB_Header FormatTMMBN"

section \<open>Auxiliary definitions for the proofs\<close>

text \<open>
  The non-negative float32 with biased exponent \<open>e\<close> and fraction \<open>f\<close>, and the three
  bytes that \<open>putBitrate\<close> stores for a value it accepts.
\<close>

definition f32_make :: "nat \<Rightarrow> nat \<Rightarrow> float32" where
  "f32_make e f = of_nat (e * 2 ^ 23 + f)"

definition putBitrate_bytes :: "float32 \<Rightarrow> u8 list" where
  "putBitrate_bytes v = (case putBitrate v [0, 0, 0] of Some (s, None) \<Rightarrow> s | _ \<Rightarrow> [])"

definition REMB_wire :: "ReceiverEstimatedMaximumBitrate \<Rightarrow> u8 list" where
  "REMB_wire p =
     [143, 206] @ be16 (of_nat (REMB_MarshalSize p div 4 - 1)) @ be32 (SenderSSRC p) @ be32 0
     @ [0x52, 0x45, 0x4D, 0x42, of_nat (length (SSRCs p))] @ putBitrate_bytes (Bitrate p)
     @ concat (map be32 (SSRCs p))"

definition loadBitrate_value :: "u8 list \<Rightarrow> float32" where
  "loadBitrate_value b = (case loadBitrate b of Some (Inr q) \<Rightarrow> q | _ \<Rightarrow> 0)"

definition quantized :: "float32 \<Rightarrow> float32" where
  "quantized v = loadBitrate_value (putBitrate_bytes v)"

definition TMMB_entry_wire :: "TMMBEntry \<Rightarrow> u8 list" where
  "TMMB_entry_wire e = be32 (MediaSSRC e) @ putBitrate_bytes (EntryBitrate e) @ [0]"

definition TMMB_wire :: "u8 \<Rightarrow> TMMB \<Rightarrow> u8 list" where
  "TMMB_wire fmt p =
     [128 OR fmt, 205] @ be16 (of_nat (TMMB_MarshalSize p div 4 - 1)) @ be32 (TMMBSenderSSRC p)
     @ be32 0 @ concat (map TMMB_entry_wire (Entries p))"

definition TMMB_quantized :: "TMMBEntry \<Rightarrow> TMMBEntry" where
  "TMMB_quantized e = e\<lparr>EntryBitrate := quantized (EntryBitrate e)\<rparr>"


section \<open>Properties of the float32 model\<close>

lemma unat_f32_make:
  assumes "e < 256" "f < 2 ^ 23"
  shows "unat (f32_make e f) = e * 2 ^ 23 + f"
proof -
  have "e * 2 ^ 23 + f < 2 ^ 32" using assms by simp
  then show ?thesis
    unfolding f32_make_def unat_of_nat by simp
qed

lemma f32_exp_make: "e < 256 \<Longrightarrow> f < 2 ^ 23 \<Longrightarrow> f32_exp (f32_make e f) = e"
  by (simp add: f32_exp_def unat_f32_make)

lemma f32_frac_make: "e < 256 \<Longrightarrow> f < 2 ^ 23 \<Longrightarrow> f32_frac (f32_make e f) = f"
  by (simp add: f32_frac_def unat_f32_make)

lemma f32_sign_make: "e < 256 \<Longrightarrow> f < 2 ^ 23 \<Longrightarrow> \<not> f32_sign (f32_make e f)"
  by (simp add: f32_sign_def unat_f32_make)

lemma f32_exp_less: "f32_exp w < 256"
  by (simp add: f32_exp_def)

lemma f32_frac_less: "f32_frac w < 2 ^ 23"
  by (simp add: f32_frac_def)

lemma f32_make_fields:
  assumes "\<not> f32_sign w"
  shows "f32_make (f32_exp w) (f32_frac w) = w"
proof -
  from assms have lt: "unat w < 2 ^ 31" by (simp add: f32_sign_def)
  then have "unat w div 2 ^ 23 < 256" by simp
  then have "(unat w div 2 ^ 23) mod 256 = unat w div 2 ^ 23" by simp
  then have "f32_exp w * 2 ^ 23 + f32_frac w = unat w"
    by (simp add: f32_exp_def f32_frac_def)
  then show ?thesis by (simp add: f32_make_def)
qed


lemma f32_mag_make:
  "e < 256 \<Longrightarrow> f < 2 ^ 23 \<Longrightarrow>
   f32_mag (f32_make e f) = (if e = 0 then f else (2 ^ 23 + f) * 2 ^ (e - 1))"
  by (simp add: f32_mag_def f32_exp_make f32_frac_make)

lemma floorlog_2_eqI:
  assumes "2 ^ k \<le> x" "x < 2 ^ Suc k"
  shows "floorlog 2 x = Suc k"
proof (rule antisym)
  show "floorlog 2 x \<le> Suc k"
    using assms(2) by (intro floorlog_leI) auto
  show "Suc k \<le> floorlog 2 x"
    using assms(1) by (intro floorlog_ge_SucI) auto
qed

lemma rne_div_exact: "0 < d \<Longrightarrow> rne_div (a * d) d = a"
  by (simp add: rne_div_def)


lemma pow2_nat_diff:
  "(2::nat) ^ a * 2 ^ nat (int b - int a) = 2 ^ b * 2 ^ nat (int a - int b)"
proof (cases "a \<le> b")
  case True
  then have "nat (int b - int a) = b - a" "nat (int a - int b) = 0" by auto
  with True show ?thesis by (simp flip: power_add)
next
  case False
  then have "nat (int b - int a) = 0" "nat (int a - int b) = a - b" by auto
  with False show ?thesis by (simp flip: power_add)
qed

lemma flog2_ratio_normal:
  assumes M: "2 ^ 23 \<le> M" "M < 2 ^ 24"
  shows "flog2_ratio (M * 2 ^ a) (2 ^ b) = 23 + int a - int b"
proof -
  have fl_n: "floorlog 2 (M * 2 ^ a) = 24 + a"
  proof -
    have "floorlog 2 M = Suc 23"
      using M by (intro floorlog_2_eqI) auto
    moreover have "0 < M" using M by simp
    ultimately show ?thesis by (simp add: floorlog_power)
  qed
  have fl_d: "floorlog 2 ((2::nat) ^ b) = b + 1"
    using floorlog_power [of 1 2 b] by (simp add: compute_floorlog)
  have k: "int (floorlog 2 (M * 2 ^ a)) - int (floorlog 2 ((2::nat) ^ b)) = 23 + int a - int b"
    by (simp add: fl_n fl_d)
  have cond: "2 ^ b * 2 ^ nat (23 + int a - int b) \<le> M * 2 ^ a * 2 ^ nat (- (23 + int a - int b))"
  proof -
    have "(2::nat) ^ b * 2 ^ nat (int (23 + a) - int b) = 2 ^ (23 + a) * 2 ^ nat (int b - int (23 + a))"
      by (rule pow2_nat_diff [symmetric])
    also have "\<dots> = 2 ^ 23 * (2 ^ a * 2 ^ nat (int b - int (23 + a)))"
      by (simp add: power_add)
    also have "\<dots> \<le> M * (2 ^ a * 2 ^ nat (int b - int (23 + a)))"
      using M(1) by (rule mult_le_mono1)
    finally show ?thesis
      by (simp add: algebra_simps)
  qed
  show ?thesis
    unfolding flog2_ratio_def k Let_def using cond by simp
qed

lemma f32_round_ratio_exact:
  assumes M: "2 ^ 23 \<le> M" "M < 2 ^ 24"
    and E: "1 \<le> int a - int b + 150" "int a - int b + 150 < 255"
  shows "f32_round_ratio (M * 2 ^ a) (2 ^ b) = nat (int a - int b + 149) * 2 ^ 23 + M"
proof -
  have t: "flog2_ratio (M * 2 ^ a) (2 ^ b) = 23 + int a - int b"
    using M by (rule flog2_ratio_normal)
  have e: "max 1 (23 + int a - int b + 127) = int a - int b + 150"
    using E by simp
  have m: "rne_div (M * 2 ^ a * 2 ^ nat (- (int a - int b + 150 - 150)))
             (2 ^ b * 2 ^ nat (int a - int b + 150 - 150)) = M"
  proof -
    have "M * 2 ^ a * 2 ^ nat (- (int a - int b + 150 - 150))
          = M * (2 ^ a * 2 ^ nat (int b - int a))"
      by (simp add: algebra_simps)
    also have "\<dots> = M * (2 ^ b * 2 ^ nat (int a - int b))"
      by (simp only: pow2_nat_diff)
    finally have "M * 2 ^ a * 2 ^ nat (- (int a - int b + 150 - 150))
          = M * (2 ^ b * 2 ^ nat (int a - int b + 150 - 150))"
      by simp
    then show ?thesis by (simp only: rne_div_exact zero_less_power zero_less_numeral mult_pos_pos)
  qed
  have bits: "nat (int a - int b + 150 - 1) * 2 ^ 23 + M < 255 * 2 ^ 23"
  proof -
    have "nat (int a - int b + 150 - 1) \<le> 253" using E by simp
    then have "nat (int a - int b + 150 - 1) * 2 ^ 23 \<le> 253 * 2 ^ 23"
      by (rule mult_le_mono1)
    with M(2) show ?thesis by simp
  qed
  show ?thesis
    unfolding f32_round_ratio_def t e Let_def m using bits by simp
qed

lemma f32_two_fields: "f32_two = f32_make 128 0"
  by (simp add: f32_two_def f32_make_def)

lemma f32_div_two:
  assumes e: "2 \<le> e" "e < 255" and f: "f < 2 ^ 23"
  shows "f32_div (f32_make e f) f32_two = f32_make (e - 1) f"
proof -
  have magb: "f32_mag (f32_make e f) = (2 ^ 23 + f) * 2 ^ (e - 1)"
    using e f by (simp add: f32_mag_make)
  have magt: "f32_mag f32_two = 2 ^ 150"
    by (simp add: f32_two_fields f32_mag_make)
  have r: "f32_round_ratio ((2 ^ 23 + f) * 2 ^ (e - 1)) (2 ^ 150)
           = nat (int (e - 1) - int 150 + 149) * 2 ^ 23 + (2 ^ 23 + f)"
    using e f by (intro f32_round_ratio_exact) auto
  have nz: "(2 ^ 23 + f) * 2 ^ (e - 1) \<noteq> 0" by simp
  have "f32_div (f32_make e f) f32_two
        = f32_pack False (f32_round_ratio ((2 ^ 23 + f) * 2 ^ (e - 1)) (2 ^ 150))"
    unfolding f32_div_def magb magt Let_def
    using e f nz
    by (simp add: f32_is_nan_def f32_is_inf_def f32_exp_make f32_frac_make f32_sign_make
        f32_two_fields del: mult_eq_0_iff)
  also have "\<dots> = of_nat (nat (int (e - 1) - int 150 + 149) * 2 ^ 23 + (2 ^ 23 + f))"
    unfolding r by (simp add: f32_pack_def)
  also have "nat (int (e - 1) - int 150 + 149) * 2 ^ 23 + (2 ^ 23 + f) = (e - 1) * 2 ^ 23 + f"
  proof -
    have "nat (int (e - 1) - int 150 + 149) = e - 2" using e by auto
    moreover have "(e - 2) * 2 ^ 23 + 2 ^ 23 = (e - 1) * (2::nat) ^ 23"
      using e by (cases e) (auto simp: algebra_simps)
    ultimately show ?thesis by simp
  qed
  finally show ?thesis by (simp add: f32_make_def)
qed


lemma f32_mag_make_less:
  assumes "e1 < e2" "e2 < 256" "f1 < 2 ^ 23" "f2 < 2 ^ 23"
  shows "f32_mag (f32_make e1 f1) < f32_mag (f32_make e2 f2)"
proof -
  have m2: "f32_mag (f32_make e2 f2) = (2 ^ 23 + f2) * 2 ^ (e2 - 1)"
    using assms by (simp add: f32_mag_make)
  have lower: "2 ^ 23 * 2 ^ (e2 - 1) \<le> (2 ^ 23 + f2) * (2::nat) ^ (e2 - 1)"
    by (rule mult_le_mono1) simp
  show ?thesis
  proof (cases "e1 = 0")
    case True
    then have "f32_mag (f32_make e1 f1) = f1"
      using assms by (simp add: f32_mag_make)
    also have "f1 < 2 ^ 23 * 2 ^ 0" using assms by simp
    also have "(2::nat) ^ 23 * 2 ^ 0 \<le> 2 ^ 23 * 2 ^ (e2 - 1)"
      by (intro mult_le_mono2 power_increasing) auto
    finally show ?thesis using lower m2 by linarith
  next
    case False
    then have "f32_mag (f32_make e1 f1) = (2 ^ 23 + f1) * 2 ^ (e1 - 1)"
      using assms by (simp add: f32_mag_make)
    also have "\<dots> < (2 ^ 23 + 2 ^ 23) * 2 ^ (e1 - 1)"
      using assms by (intro mult_strict_right_mono) auto
    also have "\<dots> = 2 ^ 23 * 2 ^ Suc (e1 - 1)"
      by simp
    also have "\<dots> \<le> 2 ^ 23 * 2 ^ (e2 - 1)"
      using assms False by (intro mult_le_mono2 power_increasing) auto
    finally show ?thesis using lower m2 by linarith
  qed
qed

lemma f32_mag_make_le_iff:
  assumes "e1 < 256" "e2 < 256" "f1 < 2 ^ 23" "f2 < 2 ^ 23"
  shows "f32_mag (f32_make e1 f1) \<le> f32_mag (f32_make e2 f2)
         \<longleftrightarrow> e1 < e2 \<or> (e1 = e2 \<and> f1 \<le> f2)"
proof -
  consider "e1 < e2" | "e2 < e1" | "e1 = e2" by linarith
  then show ?thesis
  proof cases
    case 1
    with f32_mag_make_less [of e1 e2 f1 f2] assms show ?thesis by simp
  next
    case 2
    with f32_mag_make_less [of e2 e1 f2 f1] assms show ?thesis by simp
  next
    case 3
    with assms show ?thesis by (simp add: f32_mag_make)
  qed
qed

lemma f32_is_nan_make:
  "e < 256 \<Longrightarrow> f < 2 ^ 23 \<Longrightarrow> f32_is_nan (f32_make e f) \<longleftrightarrow> e = 255 \<and> f \<noteq> 0"
  by (simp add: f32_is_nan_def f32_exp_make f32_frac_make)

lemma f32_scaled_make:
  "e < 256 \<Longrightarrow> f < 2 ^ 23 \<Longrightarrow> f32_scaled (f32_make e f) = int (f32_mag (f32_make e f))"
  by (simp add: f32_scaled_def f32_sign_make)

lemma f32_ge_make:
  assumes "e1 < 256" "e2 < 256" "f1 < 2 ^ 23" "f2 < 2 ^ 23"
  shows "f32_ge (f32_make e1 f1) (f32_make e2 f2) \<longleftrightarrow>
         \<not> (e1 = 255 \<and> f1 \<noteq> 0) \<and> \<not> (e2 = 255 \<and> f2 \<noteq> 0) \<and> (e2 < e1 \<or> (e2 = e1 \<and> f2 \<le> f1))"
  using assms by (simp add: f32_ge_def f32_is_nan_make f32_scaled_make f32_mag_make_le_iff)

lemma f32_two18_fields: "f32_two18 = f32_make 145 0"
  by (simp add: f32_two18_def f32_make_def)

lemma bitratemax_fields: "bitratemax = f32_make 207 0x7FFFC0"
  by (simp add: bitratemax_def f32_make_def)

lemma f32_zero_fields: "f32_zero = f32_make 0 0"
  by (simp add: f32_zero_def f32_make_def)

lemma f32_ge_two18_make:
  assumes "e < 256" "f < 2 ^ 23"
  shows "f32_ge (f32_make e f) f32_two18 \<longleftrightarrow> 145 \<le> e \<and> \<not> (e = 255 \<and> f \<noteq> 0)"
  using assms unfolding f32_two18_fields by (subst f32_ge_make) auto

lemma putBitrate_loop_small:
  assumes "e < 145" "f < 2 ^ 23"
  shows "putBitrate_loop (f32_make e f) x = Some (f32_make e f, x)"
  using assms by (subst putBitrate_loop.simps) (simp add: f32_ge_two18_make)

lemma putBitrate_loop_large:
  assumes "f < 2 ^ 23" "144 + k < 255"
  shows "putBitrate_loop (f32_make (144 + k) f) x = Some (f32_make 144 f, x + k)"
  using assms
proof (induction k arbitrary: x)
  case 0
  then show ?case by (simp add: putBitrate_loop_small)
next
  case (Suc k)
  have ge: "f32_ge (f32_make (144 + Suc k) f) f32_two18"
    using Suc.prems by (simp add: f32_ge_two18_make)
  have half: "f32_div (f32_make (144 + Suc k) f) f32_two = f32_make (144 + k) f"
    using Suc.prems f32_div_two [of "144 + Suc k" f] by simp
  have "putBitrate_loop (f32_make (144 + Suc k) f) x
        = putBitrate_loop (f32_make (144 + k) f) (x + 1)"
    by (subst putBitrate_loop.simps) (simp only: ge half if_True)
  also have "\<dots> = Some (f32_make 144 f, x + 1 + k)"
    using Suc.prems by (intro Suc.IH) auto
  finally show ?case by simp
qed


lemma f32_scaled_two18: "0 < f32_scaled f32_two18"
  by (simp add: f32_two18_fields f32_scaled_make f32_mag_make)

lemma f32_ge_two18_neg:
  assumes "f32_sign v \<or> f32_is_nan v"
  shows "\<not> f32_ge v f32_two18"
proof (cases "f32_is_nan v")
  case True
  then show ?thesis by (simp add: f32_ge_def)
next
  case False
  with assms have "f32_scaled v \<le> 0" by (simp add: f32_scaled_def)
  with f32_scaled_two18 show ?thesis by (simp add: f32_ge_def)
qed

lemma putBitrate_loop_clamped:
  assumes "\<not> f32_lt v f32_zero"
  shows "\<exists>b' ex. putBitrate_loop (if f32_ge v bitratemax then bitratemax else v) 0 = Some (b', ex)
           \<and> ex < 64"
proof (cases "f32_ge v bitratemax")
  case True
  have "putBitrate_loop (f32_make (144 + 63) 0x7FFFC0) 0 = Some (f32_make 144 0x7FFFC0, 0 + 63)"
    by (rule putBitrate_loop_large) auto
  with True show ?thesis by (simp add: bitratemax_fields)
next
  case nge: False
  show ?thesis
  proof (cases "f32_sign v \<or> f32_is_nan v")
    case True
    then have "\<not> f32_ge v f32_two18" by (rule f32_ge_two18_neg)
    then have "putBitrate_loop v 0 = Some (v, 0)"
      by (subst putBitrate_loop.simps) simp
    with nge show ?thesis by simp
  next
    case False
    define e f where "e = f32_exp v" and "f = f32_frac v"
    have ef: "e < 256" "f < 2 ^ 23"
      unfolding e_def f_def by (rule f32_exp_less f32_frac_less)+
    have v: "v = f32_make e f"
      using False by (simp add: e_def f_def f32_make_fields)
    have nn: "\<not> (e = 255 \<and> f \<noteq> 0)"
      using False ef by (simp add: v f32_is_nan_make)
    have "\<not> f32_ge (f32_make e f) (f32_make 207 0x7FFFC0)"
      using nge by (simp add: v bitratemax_fields)
    then have e207: "e \<le> 207"
      using ef nn by (subst (asm) f32_ge_make) auto
    show ?thesis
    proof (cases "e < 145")
      case True
      then have "putBitrate_loop v 0 = Some (v, 0)"
        using ef by (simp add: v putBitrate_loop_small)
      with nge show ?thesis by simp
    next
      case False
      define k where "k = e - 144"
      have k: "e = 144 + k" "k < 64"
        using False e207 by (auto simp: k_def)
      have "putBitrate_loop (f32_make (144 + k) f) 0 = Some (f32_make 144 f, 0 + k)"
        using ef k by (intro putBitrate_loop_large) auto
      with nge k show ?thesis by (simp add: v)
    qed
  qed
qed

lemma list_update3:
  assumes "3 \<le> length buf"
  shows "buf[0 := a, Suc 0 := b, 2 := c] = [a, b, c] @ drop 3 buf"
proof -
  from assms obtain x y z r where "buf = x # y # z # r"
    by (metis Suc_le_length_iff numeral_3_eq_3)
  then show ?thesis by simp
qed

lemma putBitrate_result:
  assumes "\<not> f32_lt v f32_zero" "3 \<le> length buf"
  shows "\<exists>a b c. putBitrate v buf = Some ([a, b, c] @ drop 3 buf, None)
                \<and> putBitrate v [0, 0, 0] = Some ([a, b, c], None)"
proof -
  let ?b = "if f32_ge v bitratemax then bitratemax else v"
  from putBitrate_loop_clamped [OF assms(1)]
  obtain b' ex where loop: "putBitrate_loop ?b 0 = Some (b', ex)" and ex: "ex < 64"
    by blast
  have nlt: "\<not> f32_lt ?b f32_zero"
    using assms(1) by (simp add: f32_lt_def bitratemax_fields f32_zero_fields f32_scaled_make
        f32_mag_make f32_is_nan_make)
  have gen: "putBitrate v buf' =
      Some (buf'[0 := of_nat (ex * 4) OR of_nat (f32_floor_uint b' div 2 ^ 16),
                 1 := of_nat (f32_floor_uint b' div 2 ^ 8),
                 2 := of_nat (f32_floor_uint b')], None)"
    if "3 \<le> length buf'" for buf'
  proof -
    from that have "buf' \<noteq> []" "Suc 0 < length buf'" "2 < length buf'" by auto
    then show ?thesis
      using nlt ex unfolding putBitrate_def Let_def loop
      by (simp add: store8_def)
  qed
  show ?thesis
    using gen [of buf] gen [of "[0, 0, 0]"] assms(2)
    by (simp add: list_update3)
qed

lemma putBitrate_ok:
  assumes "\<not> f32_lt v f32_zero" "3 \<le> length buf"
  shows "putBitrate v buf = Some (putBitrate_bytes v @ drop 3 buf, None)"
    and "length (putBitrate_bytes v) = 3"
  using putBitrate_result [OF assms] by (auto simp: putBitrate_bytes_def)

lemma putBitrate_negative:
  assumes "f32_lt v f32_zero"
  shows "putBitrate v buf = Some (buf, Some ErrInvalidBitrate)"
proof -
  have "f32_scaled v < 0"
    using assms by (simp add: f32_lt_def f32_zero_fields f32_scaled_make f32_mag_make)
  moreover have "0 < f32_scaled bitratemax"
    by (simp add: bitratemax_fields f32_scaled_make f32_mag_make)
  ultimately have "\<not> f32_ge v bitratemax"
    by (simp add: f32_ge_def)
  with assms show ?thesis
    by (simp add: putBitrate_def)
qed

lemma putBitrate_saturated:
  assumes "f32_ge v bitratemax" "3 \<le> length buf"
  shows "putBitrate v buf = Some ([0xFF, 0xFF, 0xFF] @ drop 3 buf, None)"
proof -
  have loop: "putBitrate_loop bitratemax 0 = Some (f32_make 144 0x7FFFC0, 63)"
    using putBitrate_loop_large [of "0x7FFFC0" 63 0] by (simp add: bitratemax_fields)
  have nlt: "\<not> f32_lt bitratemax f32_zero"
    by (simp add: f32_lt_def bitratemax_fields f32_zero_fields f32_scaled_make f32_mag_make)
  have m: "f32_floor_uint (f32_make 144 0x7FFFC0) = 0x3FFFF"
    by (simp add: f32_floor_uint_def f32_is_nan_make f32_scaled_make f32_mag_make)
  from assms(2) have "buf \<noteq> []" "Suc 0 < length buf" "2 < length buf" by auto
  then show ?thesis
    using assms nlt unfolding putBitrate_def Let_def
    by (simp add: loop m store8_def list_update3)
qed

section \<open>Properties of the bitrate decoder\<close>

lemma bit23_clear_less:
  fixes m :: u32
  assumes "m AND (mantissamax + 1) = 0" "unat m < 2 ^ 24"
  shows "unat m < 2 ^ 23"
proof -
  have "mantissamax + 1 = (2 ^ 23 :: u32)" by (simp add: mantissamax_def)
  with assms(1) have "\<not> bit m 23"
    by (metis and_exp_eq_0_iff_not_bit)
  then have "\<not> bit (unat m) 23"
    by (simp add: bit_unsigned_iff)
  then have ev: "even (unat m div 2 ^ 23)"
    by (simp add: bit_iff_odd)
  have "unat m div 2 ^ 23 < 2" using assms(2) by simp
  then have "unat m div 2 ^ 23 = 0 \<or> unat m div 2 ^ 23 = 1" by linarith
  with ev have "unat m div 2 ^ 23 = 0" by auto
  then show ?thesis by simp
qed

lemma loadBitrate_loop_terminates:
  fixes m :: u32
  assumes "m \<noteq> 0" "unat m < 2 ^ 24"
  shows "\<exists>r. loadBitrate_loop ex m = Some r"
  using assms
proof (induction "2 ^ 24 - unat m" arbitrary: m ex rule: less_induct)
  case less
  show ?case
  proof (cases "m AND (mantissamax + 1) = 0")
    case False
    then show ?thesis by (subst loadBitrate_loop.simps) simp
  next
    case True
    with less.prems have lt: "unat m < 2 ^ 23" by (intro bit23_clear_less)
    then have u2: "unat (m * 2) = 2 * unat m"
      by (simp add: unat_word_ariths)
    have pos: "0 < unat m" using less.prems(1) by (simp add: unat_gt_0)
    have "\<exists>r. loadBitrate_loop (ex - 1) (m * 2) = Some r"
    proof (rule less.hyps)
      show "2 ^ 24 - unat (m * 2) < 2 ^ 24 - unat m" using u2 lt pos by simp
      show "m * 2 \<noteq> 0"
      proof
        assume "m * 2 = 0"
        then have "unat (m * 2) = 0" by simp
        with u2 pos show False by simp
      qed
      show "unat (m * 2) < 2 ^ 24" using u2 lt by simp
    qed
    with True show ?thesis by (subst loadBitrate_loop.simps) simp
  qed
qed

lemma bit_u8_less: "bit x n \<Longrightarrow> n < 8" for x :: u8
  using bit_imp_le_length [of x n] by simp

lemma mantissa_bound:
  fixes b0 b1 b2 :: u8
  shows "unat (push_bit 16 (ucast (b0 AND 3)) OR push_bit 8 (ucast b1) OR ucast b2 :: u32) < 2 ^ 24"
proof -
  let ?x = "push_bit 16 (ucast (b0 AND 3)) OR push_bit 8 (ucast b1) OR ucast b2 :: u32"
  have "take_bit 24 ?x = ?x"
  proof (rule bit_word_eqI)
    fix n assume "n < LENGTH(32)"
    then consider "n < 24" | "24 \<le> n" by fastforce
    then show "bit (take_bit 24 ?x) n = bit ?x n"
    proof cases
      case 1
      then show ?thesis by (simp add: bit_simps)
    next
      case 2
      then have "\<not> n - 16 < 8" "\<not> n - 8 < 8" "\<not> n < 8" by arith+
      then have "\<not> bit b0 (n - 16)" "\<not> bit b1 (n - 8)" "\<not> bit b2 n"
        using bit_u8_less by blast+
      with 2 show ?thesis by (simp add: bit_simps)
    qed
  qed
  then have "unat ?x = unat (take_bit 24 ?x)"
    by (simp only:)
  also have "\<dots> = take_bit 24 (unat ?x)"
    by (rule unsigned_take_bit_eq)
  also have "\<dots> < 2 ^ 24"
    by (rule take_bit_nat_less_exp)
  finally show ?thesis .
qed

lemma be16_roundtrip:
  fixes v :: u16
  shows "push_bit 8 (ucast (ucast (drop_bit 8 v) :: u8)) OR ucast (ucast v :: u8) = v"
proof (rule bit_word_eqI)
  fix n assume "n < LENGTH(16)"
  then consider "n < 8" | "8 \<le> n" "n < 16" by fastforce
  then show "bit (push_bit 8 (ucast (ucast (drop_bit 8 v) :: u8)) OR ucast (ucast v :: u8) :: u16) n
             = bit v n"
    by cases (simp_all add: bit_simps, arith+)
qed

lemma be32_roundtrip:
  fixes v :: u32
  shows "push_bit 24 (ucast (ucast (drop_bit 24 v) :: u8))
         OR push_bit 16 (ucast (ucast (drop_bit 16 v) :: u8))
         OR push_bit 8 (ucast (ucast (drop_bit 8 v) :: u8)) OR ucast (ucast v :: u8) = v"
proof (rule bit_word_eqI)
  fix n assume "n < LENGTH(32)"
  then consider "n < 8" | "8 \<le> n" "n < 16" | "16 \<le> n" "n < 24" | "24 \<le> n" "n < 32"
    by fastforce
  then show "bit (push_bit 24 (ucast (ucast (drop_bit 24 v) :: u8))
         OR push_bit 16 (ucast (ucast (drop_bit 16 v) :: u8))
         OR push_bit 8 (ucast (ucast (drop_bit 8 v) :: u8)) OR ucast (ucast v :: u8) :: u32) n
             = bit v n"
    by cases (simp_all add: bit_simps, arith+)
qed

lemma loadBitrate_total:
  assumes "3 \<le> length buf"
  shows "\<exists>q. loadBitrate buf = Some (Inr q)"
proof -
  let ?m = "push_bit 16 (ucast (buf ! 0 AND 3)) OR push_bit 8 (ucast (buf ! 1)) OR ucast (buf ! 2) :: u32"
  let ?ex = "drop_bit 2 (buf ! 0) + 127 + 23"
  have "\<exists>r. (if ?m \<noteq> 0 then loadBitrate_loop ?ex ?m else Some (?ex, ?m)) = Some r"
    using loadBitrate_loop_terminates [of ?m ?ex] mantissa_bound [of "buf ! 0" "buf ! 1" "buf ! 2"]
    by auto
  then obtain r where "(if ?m \<noteq> 0 then loadBitrate_loop ?ex ?m else Some (?ex, ?m)) = Some r"
    by blast
  with assms show ?thesis
    unfolding loadBitrate_def Let_def by (cases r) simp
qed

lemma loadBitrate_take3:
  assumes "3 \<le> length buf"
  shows "loadBitrate buf = loadBitrate (take 3 buf)"
  using assms unfolding loadBitrate_def by simp

section \<open>Properties of the REMB codec\<close>

lemma length_be32 [simp]: "length (be32 v) = 4"
  by (simp add: be32_def)

lemma length_be16 [simp]: "length (be16 v) = 2"
  by (simp add: be16_def)

lemma length_concat_be32 [simp]: "length (concat (map be32 xs)) = 4 * length xs"
  by (induction xs) auto

lemma Uint32_be32: "Uint32 (be32 v @ r) = Inr v"
  using be32_roundtrip [of v] by (simp add: Uint32_def be32_def)

lemma PutUint32_at_ok:
  assumes "length pre = n" "4 \<le> length rest"
  shows "PutUint32_at (pre @ rest) n (n + 4) v = Inr (pre @ be32 v @ drop 4 rest)"
  using assms by (simp add: PutUint32_at_def slice_def PutUint32_def)

lemma Uint32_at_ok:
  assumes "length pre = n"
  shows "Uint32_at (pre @ be32 v @ r) n (n + 4) = Inr v"
  using assms Uint32_be32 [of v "[]"] by (simp add: Uint32_at_def slice_def)

lemma REMB_MarshalTo_loop_ok:
  assumes "length pre = n" "length rest = 4 * length xs"
  shows "REMB_MarshalTo_loop xs n (pre @ rest) = (pre @ concat (map be32 xs), Inr (n + 4 * length xs))"
  using assms
proof (induction xs arbitrary: pre n rest)
  case Nil
  then show ?case by simp
next
  case (Cons x xs)
  have put: "PutUint32_at (pre @ rest) n (n + 4) x = Inr ((pre @ be32 x) @ drop 4 rest)"
    using Cons.prems by (simp add: PutUint32_at_ok)
  have "REMB_MarshalTo_loop xs (n + 4) ((pre @ be32 x) @ drop 4 rest)
        = ((pre @ be32 x) @ concat (map be32 xs), Inr (n + 4 + 4 * length xs))"
    using Cons.prems by (intro Cons.IH) auto
  then show ?case
    by (simp add: put)
qed

lemma REMB_Unmarshal_loop_ok:
  assumes "length pre = n"
  shows "REMB_Unmarshal_loop n (n + 4 * length xs) (pre @ concat (map be32 xs)) p
         = (p\<lparr>SSRCs := SSRCs p @ xs\<rparr>, None)"
  using assms
proof (induction xs arbitrary: pre n p)
  case Nil
  then show ?case by (subst REMB_Unmarshal_loop.simps) simp
next
  case (Cons x xs)
  have rd: "Uint32_at (pre @ concat (map be32 (x # xs))) n (n + 4) = Inr x"
    using Cons.prems Uint32_at_ok [of pre n x "concat (map be32 xs)"] by simp
  have "REMB_Unmarshal_loop (n + 4) (n + 4 + 4 * length xs) ((pre @ be32 x) @ concat (map be32 xs))
          (p\<lparr>SSRCs := SSRCs p @ [x]\<rparr>)
        = (p\<lparr>SSRCs := SSRCs p @ [x]\<rparr>\<lparr>SSRCs := SSRCs (p\<lparr>SSRCs := SSRCs p @ [x]\<rparr>) @ xs\<rparr>, None)"
    using Cons.prems by (intro Cons.IH) auto
  then show ?case
    using rd by (subst REMB_Unmarshal_loop.simps) (simp add: add.assoc)
qed


lemma putBitrate_ok3:
  assumes "\<not> f32_lt v f32_zero" "length s = 3"
  shows "putBitrate v s = Some (putBitrate_bytes v, None)"
  using putBitrate_ok(1) [OF assms(1), of s] assms(2) by simp

lemma replicate20: "replicate (20 + k) (0::u8) = [0,0,0,0,0,0,0,0,0,0,0,0,0,0,0,0,0,0,0,0] @ replicate k 0"
  by (simp add: replicate_add eval_nat_numeral)

lemma REMB_MarshalTo_ok:
  assumes "\<not> f32_lt (Bitrate p) f32_zero"
  shows "REMB_MarshalTo p (replicate (REMB_MarshalSize p) 0)
         = Some (REMB_wire p, Inr (REMB_MarshalSize p))"
proof -
  define z where "z = replicate (4 * length (SSRCs p)) (0::u8)"
  have lz: "length z = 4 * length (SSRCs p)" by (simp add: z_def)
  obtain a b c where abc: "putBitrate_bytes (Bitrate p) = [a, b, c]"
    using putBitrate_ok(2) [OF assms, of "[0,0,0]"]
    by (auto simp: numeral_3_eq_3 length_Suc_conv)
  have loop: "REMB_MarshalTo_loop (SSRCs p) 20 (pre @ z) = (pre @ concat (map be32 (SSRCs p)), Inr (20 + 4 * length (SSRCs p)))"
    if "length pre = 20" for pre
    using that lz by (rule REMB_MarshalTo_loop_ok)
  show ?thesis
    unfolding REMB_MarshalTo_def REMB_MarshalSize_def replicate20 z_def [symmetric] Let_def
    by (simp add: be16_def be32_def putBitrate_ok3 [OF assms] abc lz
        loop [of "[143, 206, x2, x3, x4, x5, x6, x7, 0, 0, 0, 0, 0x52, 0x45, 0x4D, 0x42, x16, a, b, c]" for x2 x3 x4 x5 x6 x7 x16, simplified]
        REMB_wire_def REMB_MarshalSize_def)
qed

lemma length_REMB_wire:
  assumes "\<not> f32_lt (Bitrate p) f32_zero"
  shows "length (REMB_wire p) = REMB_MarshalSize p"
  using putBitrate_ok(2) [OF assms, of "[0,0,0]"] by (simp add: REMB_wire_def REMB_MarshalSize_def)

lemma REMB_Marshal_ok:
  assumes "\<not> f32_lt (Bitrate p) f32_zero"
  shows "REMB_Marshal p = Some (Inr (REMB_wire p))"
  unfolding REMB_Marshal_def Let_def REMB_MarshalTo_ok [OF assms]
  by (simp add: length_REMB_wire [OF assms])


lemma loadBitrate_quantized:
  assumes "\<not> f32_lt v f32_zero"
  shows "loadBitrate (putBitrate_bytes v) = Some (Inr (quantized v))"
proof -
  have "3 \<le> length (putBitrate_bytes v)"
    using putBitrate_ok(2) [OF assms, of "[0,0,0]"] by simp
  from loadBitrate_total [OF this] show ?thesis
    by (auto simp: quantized_def loadBitrate_value_def)
qed

lemma REMB_length_field:
  assumes "n \<le> 255"
  shows "unat ((of_nat (n + 4) + 1) * 4 :: u16) = 20 + 4 * n"
proof -
  have "unat ((of_nat (n + 4) + 1) * 4 :: u16) = unat (of_nat ((n + 4 + 1) * 4) :: u16)"
    by simp
  also have "\<dots> = ((n + 4 + 1) * 4) mod 2 ^ 16"
    unfolding unat_of_nat by simp
  also have "\<dots> = 20 + 4 * n"
    using assms by simp
  finally show ?thesis .
qed

lemma unat_of_nat_u8: "n \<le> 255 \<Longrightarrow> unat (of_nat n :: u8) = n"
  unfolding unat_of_nat by simp

lemma REMB_roundtrip:
  assumes ok: "\<not> f32_lt (Bitrate p) f32_zero" and n: "length (SSRCs p) \<le> 255"
  shows "REMB_Unmarshal r (REMB_wire p) = Some (p\<lparr>Bitrate := quantized (Bitrate p)\<rparr>, None)"
proof -
  obtain a b c where abc: "putBitrate_bytes (Bitrate p) = [a, b, c]"
    using putBitrate_ok(2) [OF ok, of "[0,0,0]"]
    by (auto simp: numeral_3_eq_3 length_Suc_conv)
  define L :: u16 where "L = of_nat (REMB_MarshalSize p div 4 - 1)"
  have L: "L = of_nat (length (SSRCs p) + 4)"
    unfolding L_def by (rule arg_cong [of _ _ of_nat]) (simp add: REMB_MarshalSize_def)
  define hdr where "hdr = [143, 206, ucast (drop_bit 8 L), ucast L] @ be32 (SenderSSRC p)
      @ [0, 0, 0, 0, 0x52, 0x45, 0x4D, 0x42, of_nat (length (SSRCs p)), a, b, c]"
  have lh: "length hdr = 20" by (simp add: hdr_def)
  have wire: "REMB_wire p = hdr @ concat (map be32 (SSRCs p))"
    by (simp add: REMB_wire_def hdr_def L_def abc be16_def be32_def)
  have sz: "unat ((L + 1) * 4) = 20 + 4 * length (SSRCs p)"
    unfolding L using n by (rule REMB_length_field)
  have lenf: "push_bit 8 (ucast (hdr ! 2)) OR ucast (hdr ! 3) = L"
    by (simp add: hdr_def be16_roundtrip)
  have lb: "loadBitrate [a, b, c] = Some (Inr (quantized (Bitrate p)))"
    using loadBitrate_quantized [OF ok] by (simp add: abc)
  have loop: "REMB_Unmarshal_loop 20 (20 + 4 * length (SSRCs p)) (hdr @ concat (map be32 (SSRCs p))) q
         = (q\<lparr>SSRCs := SSRCs q @ SSRCs p\<rparr>, None)" for q
    using lh by (rule REMB_Unmarshal_loop_ok)
  have sender: "Uint32_at (hdr @ t) 4 8 = Inr (SenderSSRC p)" for t
    using Uint32_at_ok [of "[143, 206, ucast (drop_bit 8 L), ucast L]" 4 "SenderSSRC p"]
    by (simp add: hdr_def)
  have media: "Uint32_at (hdr @ t) 8 12 = Inr 0" for t
    by (simp add: hdr_def Uint32_at_def slice_def Uint32_def be32_def)
  have b0: "(hdr @ t) ! 0 = 143" "(hdr @ t) ! 1 = 206" "(hdr @ t) ! 2 = hdr ! 2" "(hdr @ t) ! 3 = hdr ! 3"
    "(hdr @ t) ! 16 = of_nat (length (SSRCs p))" for t
    by (simp_all add: hdr_def be32_def)
  have ident: "take 4 (drop 12 (hdr @ t)) = [0x52, 0x45, 0x4D, 0x42]" for t
    by (simp add: hdr_def be32_def)
  have br: "take 3 (drop 17 (hdr @ t)) = [a, b, c]" for t
    by (simp add: hdr_def be32_def)
  have len: "20 \<le> length (hdr @ t)" for t
    by (simp add: lh)
  show ?thesis
    unfolding wire REMB_Unmarshal_def Let_def b0 lenf sz sender media ident br
    using n by (simp add: lh lb loop unat_of_nat_u8)
qed

section \<open>Properties of the TMMBR and TMMBN codec\<close>

lemma length_TMMB_entry_wire:
  "\<not> f32_lt (EntryBitrate e) f32_zero \<Longrightarrow> length (TMMB_entry_wire e) = 8"
  using putBitrate_ok(2) [of "EntryBitrate e" "[0,0,0]"] by (simp add: TMMB_entry_wire_def)

lemma PutUint32_from_ok:
  assumes "length pre = off" "4 \<le> length rest"
  shows "PutUint32_from (pre @ rest) off v = Inr (pre @ be32 v @ drop 4 rest)"
  using assms by (simp add: PutUint32_from_def slice_from_def PutUint32_def)

lemma slice_from_ok:
  assumes "length pre = off"
  shows "slice_from (pre @ rest) off = Inr rest"
  using assms by (simp add: slice_from_def)

lemma TMMB_entry_step:
  assumes pre: "length pre = 8 + 8 * i"
  shows "TMMB_Marshal_loop i (e # es) (pre @ replicate (8 * length (e # es)) 0) =
     (case putBitrate (EntryBitrate e) (replicate (4 + 8 * length es) 0) of
        None \<Rightarrow> None
      | Some (s', Some err) \<Rightarrow> Some ((pre @ be32 (MediaSSRC e)) @ s', Some err)
      | Some (s', None) \<Rightarrow> TMMB_Marshal_loop (i + 1) es ((pre @ be32 (MediaSSRC e)) @ s'))"
proof -
  let ?off = "ssrcLength * 2 + i * (2 * ssrcLength)"
  have off: "?off = length pre" using pre by (simp add: ssrcLength_def)
  have rep: "replicate (8 * length (e # es)) (0::u8) = replicate 4 0 @ replicate (4 + 8 * length es) 0"
    by (simp flip: replicate_add)
  have put: "PutUint32_from (pre @ replicate (8 * length (e # es)) 0) (length pre) (MediaSSRC e)
        = Inr ((pre @ be32 (MediaSSRC e)) @ replicate (4 + 8 * length es) 0)"
    unfolding rep by (subst PutUint32_from_ok) auto
  have sl: "slice_from ((pre @ be32 (MediaSSRC e)) @ replicate (4 + 8 * length es) 0)
              (length pre + ssrcLength) = Inr (replicate (4 + 8 * length es) 0)"
    by (rule slice_from_ok) (simp add: ssrcLength_def)
  have tk: "take (length pre + ssrcLength) ((pre @ be32 (MediaSSRC e)) @ replicate (4 + 8 * length es) 0)
            = pre @ be32 (MediaSSRC e)"
    by (simp add: ssrcLength_def)
  show ?thesis
    unfolding TMMB_Marshal_loop.simps Let_def off put sum.case sl tk ..
qed

lemma TMMB_Marshal_loop_ok:
  assumes "length pre = 8 + 8 * i" "\<forall>e\<in>set es. \<not> f32_lt (EntryBitrate e) f32_zero"
  shows "TMMB_Marshal_loop i es (pre @ replicate (8 * length es) 0)
         = Some (pre @ concat (map TMMB_entry_wire es), None)"
  using assms
proof (induction es arbitrary: pre i)
  case Nil
  then show ?case by simp
next
  case (Cons e es)
  have ok: "\<not> f32_lt (EntryBitrate e) f32_zero" using Cons.prems by simp
  have pb: "putBitrate (EntryBitrate e) (replicate (4 + 8 * length es) 0)
            = Some (putBitrate_bytes (EntryBitrate e) @ [0] @ replicate (8 * length es) 0, None)"
  proof -
    have "drop 3 (replicate (4 + 8 * length es) (0::u8)) = [0] @ replicate (8 * length es) 0"
      by (simp add: numeral_3_eq_3 flip: replicate_add)
    with putBitrate_ok(1) [OF ok, of "replicate (4 + 8 * length es) 0"] show ?thesis by simp
  qed
  have "TMMB_Marshal_loop (i + 1) es ((pre @ TMMB_entry_wire e) @ replicate (8 * length es) 0)
        = Some ((pre @ TMMB_entry_wire e) @ concat (map TMMB_entry_wire es), None)"
    using Cons.prems ok by (intro Cons.IH) (auto simp: length_TMMB_entry_wire)
  moreover have "TMMB_entry_wire e = be32 (MediaSSRC e) @ putBitrate_bytes (EntryBitrate e) @ [0]"
    by (simp add: TMMB_entry_wire_def)
  ultimately show ?case
    unfolding TMMB_entry_step [OF Cons.prems(1)] pb
    by simp
qed

lemma TMMB_Marshal_loop_negative:
  assumes "length pre = 8 + 8 * i" "\<exists>e\<in>set es. f32_lt (EntryBitrate e) f32_zero"
  shows "\<exists>b. TMMB_Marshal_loop i es (pre @ replicate (8 * length es) 0)
              = Some (b, Some ErrInvalidBitrate)"
  using assms
proof (induction es arbitrary: pre i)
  case Nil
  then show ?case by simp
next
  case (Cons e es)
  show ?case
  proof (cases "f32_lt (EntryBitrate e) f32_zero")
    case True
    then show ?thesis
      unfolding TMMB_entry_step [OF Cons.prems(1)]
      by (simp add: putBitrate_negative)
  next
    case False
    have pb: "putBitrate (EntryBitrate e) (replicate (4 + 8 * length es) 0)
            = Some (putBitrate_bytes (EntryBitrate e) @ [0] @ replicate (8 * length es) 0, None)"
    proof -
      have "drop 3 (replicate (4 + 8 * length es) (0::u8)) = [0] @ replicate (8 * length es) 0"
        by (simp add: numeral_3_eq_3 flip: replicate_add)
      with putBitrate_ok(1) [OF False, of "replicate (4 + 8 * length es) 0"] show ?thesis by simp
    qed
    have "\<exists>b. TMMB_Marshal_loop (i + 1) es ((pre @ TMMB_entry_wire e) @ replicate (8 * length es) 0)
        = Some (b, Some ErrInvalidBitrate)"
      using Cons.prems False by (intro Cons.IH) (auto simp: length_TMMB_entry_wire)
    moreover have "TMMB_entry_wire e = be32 (MediaSSRC e) @ putBitrate_bytes (EntryBitrate e) @ [0]"
      by (simp add: TMMB_entry_wire_def)
    ultimately show ?thesis
      unfolding TMMB_entry_step [OF Cons.prems(1)] pb
      by simp
  qed
qed


lemma TMMB_Marshal_unfold:
  assumes fmt: "fmt = FormatTMMBR \<or> fmt = FormatTMMBN"
  shows "TMMB_Marshal fmt p =
     (case TMMB_Marshal_loop 0 (Entries p)
             ((be32 (TMMBSenderSSRC p) @ be32 0) @ replicate (8 * length (Entries p)) 0) of
        None \<Rightarrow> None
      | Some (body3, Some e) \<Rightarrow> Some (Inl e)
      | Some (body3, None) \<Rightarrow>
          Some (Inr (([128 OR fmt, 205] @ be16 (of_nat (TMMB_MarshalSize p div 4 - 1))) @ body3)))"
proof -
  define n where "n = length (Entries p)"
  define L :: u16 where "L = of_nat (TMMB_MarshalSize p div 4 - 1)"
  define hb where "hb = [128 OR fmt, 205] @ be16 L"
  have sz: "TMMB_MarshalSize p = 4 + (4 + (4 + 8 * n))"
    by (simp add: TMMB_MarshalSize_def headerLength_def ssrcLength_def n_def)
  have hm: "Header_Marshal (TMMB_Header fmt p) = Inr hb"
    using fmt by (auto simp: Header_Marshal_def TMMB_Header_def FormatTMMBR_def FormatTMMBN_def
        TypeTransportSpecificFeedback_def hb_def L_def)
  have lhb: "length hb = 4" by (simp add: hb_def)
  have raw: "copy_bytes (replicate (TMMB_MarshalSize p) 0) hb = hb @ replicate (4 + (4 + 8 * n)) 0"
    unfolding sz copy_bytes_def Let_def by (simp add: lhb flip: replicate_add)
  have sl: "slice_from (hb @ replicate (4 + (4 + 8 * n)) 0) headerLength
            = Inr (replicate (4 + (4 + 8 * n)) 0)"
    by (rule slice_from_ok) (simp add: lhb headerLength_def)
  have p1: "PutUint32 (replicate (4 + (4 + 8 * n)) 0) (TMMBSenderSSRC p)
            = Inr (be32 (TMMBSenderSSRC p) @ replicate (4 + 8 * n) 0)"
    by (simp add: PutUint32_def flip: replicate_add)
  have p2: "PutUint32_from (be32 (TMMBSenderSSRC p) @ replicate (4 + 8 * n) 0) ssrcLength 0
            = Inr ((be32 (TMMBSenderSSRC p) @ be32 0) @ replicate (8 * n) 0)"
    by (subst PutUint32_from_ok) (simp_all add: ssrcLength_def flip: replicate_add)
  have tk: "take headerLength (hb @ replicate (4 + (4 + 8 * n)) 0) = hb"
    by (simp add: lhb headerLength_def)
  show ?thesis
    unfolding TMMB_Marshal_def Let_def hm sum.case raw sl p1 p2 tk
    unfolding hb_def L_def n_def ..
qed

lemma TMMB_Marshal_ok:
  assumes "fmt = FormatTMMBR \<or> fmt = FormatTMMBN"
    and "\<forall>e\<in>set (Entries p). \<not> f32_lt (EntryBitrate e) f32_zero"
  shows "TMMB_Marshal fmt p = Some (Inr (TMMB_wire fmt p))"
proof -
  have "TMMB_Marshal_loop 0 (Entries p)
          ((be32 (TMMBSenderSSRC p) @ be32 0) @ replicate (8 * length (Entries p)) 0)
        = Some ((be32 (TMMBSenderSSRC p) @ be32 0) @ concat (map TMMB_entry_wire (Entries p)), None)"
    using assms(2) by (intro TMMB_Marshal_loop_ok) auto
  then show ?thesis
    unfolding TMMB_Marshal_unfold [OF assms(1)] by (simp add: TMMB_wire_def)
qed

lemma TMMB_Marshal_negative:
  assumes "fmt = FormatTMMBR \<or> fmt = FormatTMMBN"
    and "\<exists>e\<in>set (Entries p). f32_lt (EntryBitrate e) f32_zero"
  shows "TMMB_Marshal fmt p = Some (Inl ErrInvalidBitrate)"
proof -
  have "\<exists>b. TMMB_Marshal_loop 0 (Entries p)
          ((be32 (TMMBSenderSSRC p) @ be32 0) @ replicate (8 * length (Entries p)) 0)
        = Some (b, Some ErrInvalidBitrate)"
    using assms(2) by (intro TMMB_Marshal_loop_negative) auto
  then show ?thesis
    unfolding TMMB_Marshal_unfold [OF assms(1)] by auto
qed


lemma drop_concat_entries:
  assumes "\<forall>e\<in>set es. length (TMMB_entry_wire e) = 8" "i \<le> length es"
  shows "drop (8 * i) (concat (map TMMB_entry_wire es)) = concat (map TMMB_entry_wire (drop i es))"
  using assms
proof (induction es arbitrary: i)
  case Nil
  then show ?case by simp
next
  case (Cons e es)
  show ?case
  proof (cases i)
    case 0
    then show ?thesis by simp
  next
    case (Suc j)
    with Cons.prems have "drop (8 * j) (concat (map TMMB_entry_wire es))
        = concat (map TMMB_entry_wire (drop j es))"
      by (intro Cons.IH) auto
    moreover have "length (TMMB_entry_wire e) = 8" using Cons.prems by simp
    ultimately show ?thesis using Suc by simp
  qed
qed

lemma entry_update_eq:
  fixes x y :: TMMBEntry
  shows "x\<lparr>MediaSSRC := MediaSSRC y, EntryBitrate := b\<rparr> = y\<lparr>EntryBitrate := b\<rparr>"
  by (cases x, cases y) simp

lemma TMMB_Unmarshal_step:
  assumes pre: "length pre = 8"
    and ok: "\<forall>e\<in>set es. \<not> f32_lt (EntryBitrate e) f32_zero"
    and i: "i < length es" and ents: "length ents = length es"
  shows "TMMB_Unmarshal_loop i (length es) (pre @ concat (map TMMB_entry_wire es)) (p\<lparr>Entries := ents\<rparr>)
       = TMMB_Unmarshal_loop (i + 1) (length es) (pre @ concat (map TMMB_entry_wire es))
           (p\<lparr>Entries := ents[i := TMMB_quantized (es ! i)]\<rparr>)"
proof -
  let ?body = "pre @ concat (map TMMB_entry_wire es)"
  let ?off = "ssrcLength * 2 + i * (2 * ssrcLength)"
  let ?e = "es ! i"
  have l8: "\<forall>e\<in>set es. length (TMMB_entry_wire e) = 8"
    using ok by (simp add: length_TMMB_entry_wire)
  have off: "?off = 8 + 8 * i" by (simp add: ssrcLength_def)
  have lcat: "length (concat (map TMMB_entry_wire es)) = 8 * length es"
    using l8 by (induction es) auto
  have dr: "drop (8 + 8 * i) ?body = TMMB_entry_wire ?e @ concat (map TMMB_entry_wire (drop (Suc i) es))"
  proof -
    have "drop (8 + 8 * i) ?body = drop (8 * i) (concat (map TMMB_entry_wire es))"
      using pre by simp
    also have "\<dots> = concat (map TMMB_entry_wire (drop i es))"
      using l8 i by (intro drop_concat_entries) auto
    also have "drop i es = ?e # drop (Suc i) es"
      using i by (simp add: Cons_nth_drop_Suc)
    finally show ?thesis by simp
  qed
  have len: "8 + 8 * i \<le> length ?body" "8 + 8 * i + 4 \<le> length ?body"
    using pre i lcat by auto
  have ew: "TMMB_entry_wire ?e = be32 (MediaSSRC ?e) @ putBitrate_bytes (EntryBitrate ?e) @ [0]"
    by (simp add: TMMB_entry_wire_def)
  have oke: "\<not> f32_lt (EntryBitrate ?e) f32_zero" using ok i by simp
  have rd: "Uint32_from ?body ?off = Inr (MediaSSRC ?e)"
    unfolding off Uint32_from_def slice_from_def using len(1)
    by (simp only: if_True sum.case dr ew append_assoc Uint32_be32)
  have dr4: "drop (8 + 8 * i + 4) ?body
      = putBitrate_bytes (EntryBitrate ?e) @ [0] @ concat (map TMMB_entry_wire (drop (Suc i) es))"
  proof -
    have "drop (8 + 8 * i + 4) ?body = drop 4 (drop (8 + 8 * i) ?body)"
      by (simp only: drop_drop add.commute [of 4])
    then show ?thesis unfolding dr ew by simp
  qed
  have sl: "slice_from ?body (?off + ssrcLength) = Inr (drop (8 + 8 * i + 4) ?body)"
    unfolding off using len(2) by (simp add: slice_from_def ssrcLength_def)
  have lb: "loadBitrate (drop (8 + 8 * i + 4) ?body) = Some (Inr (quantized (EntryBitrate ?e)))"
  proof -
    have l3: "length (putBitrate_bytes (EntryBitrate ?e)) = 3"
      using putBitrate_ok(2) [OF oke, of "[0,0,0]"] by simp
    have "3 \<le> length (drop (8 + 8 * i + 4) ?body)"
      unfolding dr4 using l3 by simp
    then have "loadBitrate (drop (8 + 8 * i + 4) ?body) = loadBitrate (take 3 (drop (8 + 8 * i + 4) ?body))"
      by (rule loadBitrate_take3)
    also have "take 3 (drop (8 + 8 * i + 4) ?body) = putBitrate_bytes (EntryBitrate ?e)"
      unfolding dr4 using l3 by simp
    finally show ?thesis by (simp add: loadBitrate_quantized [OF oke])
  qed
  show ?thesis
    apply (subst TMMB_Unmarshal_loop.simps)
    using i ents unfolding Let_def rd sum.case sl lb
    by (simp add: TMMB_quantized_def entry_update_eq)
qed

lemma TMMB_Unmarshal_loop_ok:
  assumes pre: "length pre = 8"
    and ok: "\<forall>e\<in>set es. \<not> f32_lt (EntryBitrate e) f32_zero"
    and i: "i \<le> length es" and ents: "length ents = length es"
  shows "TMMB_Unmarshal_loop i (length es) (pre @ concat (map TMMB_entry_wire es)) (p\<lparr>Entries := ents\<rparr>)
       = Some (p\<lparr>Entries := take i ents @ map TMMB_quantized (drop i es)\<rparr>, None)"
  using i ents
proof (induction "length es - i" arbitrary: i ents)
  case 0
  then show ?case by (subst TMMB_Unmarshal_loop.simps) simp
next
  case (Suc k)
  then have i: "i < length es" by simp
  have "TMMB_Unmarshal_loop (i + 1) (length es) (pre @ concat (map TMMB_entry_wire es))
           (p\<lparr>Entries := ents[i := TMMB_quantized (es ! i)]\<rparr>)
        = Some (p\<lparr>Entries := take (i + 1) (ents[i := TMMB_quantized (es ! i)])
                              @ map TMMB_quantized (drop (i + 1) es)\<rparr>, None)"
    using Suc.hyps(2) Suc.prems i by (intro Suc.hyps(1)) auto
  moreover have "take (i + 1) (ents[i := TMMB_quantized (es ! i)]) @ map TMMB_quantized (drop (i + 1) es)
        = take i ents @ map TMMB_quantized (drop i es)"
  proof -
    have "take (i + 1) (ents[i := TMMB_quantized (es ! i)]) = take i ents @ [TMMB_quantized (es ! i)]"
      using i Suc.prems by (simp add: take_Suc_conv_app_nth)
    moreover have "drop i es = es ! i # drop (i + 1) es"
      using i by (simp add: Cons_nth_drop_Suc)
    ultimately show ?thesis by simp
  qed
  ultimately show ?case
    unfolding TMMB_Unmarshal_step [OF pre ok i Suc.prems(2)] by simp
qed


lemma TMMB_length_field:
  assumes "n \<le> 32766"
  shows "unat (((of_nat (2 + 2 * n) :: u16) - 2) div 2) = n"
    and "unat (((of_nat (2 + 2 * n) :: u16) + 1) * 4) \<le> 12 + 8 * n"
proof -
  have "(of_nat (2 + 2 * n) :: u16) - 2 = of_nat (2 * n)"
    by simp
  moreover have "unat (of_nat (2 * n) :: u16) = 2 * n"
    unfolding unat_of_nat using assms by simp
  ultimately show "unat (((of_nat (2 + 2 * n) :: u16) - 2) div 2) = n"
    by (simp add: unat_div)
  have "unat (((of_nat (2 + 2 * n) :: u16) + 1) * 4) = unat (of_nat ((2 + 2 * n + 1) * 4) :: u16)"
    by simp
  also have "\<dots> = ((2 + 2 * n + 1) * 4) mod 2 ^ 16"
    unfolding unat_of_nat by simp
  also have "\<dots> \<le> (2 + 2 * n + 1) * 4"
    by (rule mod_less_eq_dividend)
  finally show "unat (((of_nat (2 + 2 * n) :: u16) + 1) * 4) \<le> 12 + 8 * n"
    by simp
qed

lemma TMMB_record_eq:
  fixes r p :: TMMB
  shows "r\<lparr>TMMBSenderSSRC := TMMBSenderSSRC p, Entries := es\<rparr> = p\<lparr>Entries := es\<rparr>"
  by (cases r, cases p) simp

lemma TMMB_roundtrip:
  assumes fmt: "fmt = FormatTMMBR \<or> fmt = FormatTMMBN"
    and ok: "\<forall>e\<in>set (Entries p). \<not> f32_lt (EntryBitrate e) f32_zero"
    and n: "length (Entries p) \<le> 32766"
  shows "TMMB_Unmarshal fmt r (TMMB_wire fmt p)
         = Some (p\<lparr>Entries := map TMMB_quantized (Entries p)\<rparr>, None)"
proof -
  define es where "es = Entries p"
  define L :: u16 where "L = of_nat (TMMB_MarshalSize p div 4 - 1)"
  define hb where "hb = [128 OR fmt, 205] @ be16 L"
  define pre where "pre = be32 (TMMBSenderSSRC p) @ be32 0"
  define body where "body = pre @ concat (map TMMB_entry_wire es)"
  have L: "L = of_nat (2 + 2 * length es)"
    unfolding L_def
    by (rule arg_cong [of _ _ of_nat])
      (simp add: TMMB_MarshalSize_def headerLength_def ssrcLength_def es_def)
  have wire: "TMMB_wire fmt p = hb @ body"
    by (simp add: TMMB_wire_def hb_def body_def pre_def L_def es_def)
  have l8: "\<forall>e\<in>set es. length (TMMB_entry_wire e) = 8"
    using ok by (simp add: length_TMMB_entry_wire es_def)
  have lcat: "length (concat (map TMMB_entry_wire es)) = 8 * length es"
    using l8 by (induction es) auto
  have lhb: "length hb = 4" by (simp add: hb_def)
  have lpre: "length pre = 8" by (simp add: pre_def)
  have lw: "length (hb @ body) = 12 + 8 * length es"
    by (simp add: lhb body_def lpre lcat)
  have hu: "Header_Unmarshal (hb @ body)
            = Inr \<lparr>Padding = False, Count = fmt, Type = TypeTransportSpecificFeedback, Length = L\<rparr>"
    using fmt
    by (auto simp: Header_Unmarshal_def headerLength_def lhb hb_def be16_def be16_roundtrip
        FormatTMMBR_def FormatTMMBN_def TypeTransportSpecificFeedback_def)
  have ec: "unat ((L - 2) div 2) = length es"
    unfolding L using n by (intro TMMB_length_field(1)) (simp add: es_def)
  have ex: "unat ((L + 1) * 4) \<le> 12 + 8 * length es"
    unfolding L using n by (intro TMMB_length_field(2)) (simp add: es_def)
  have sl: "slice_from (hb @ body) headerLength = Inr body"
    by (rule slice_from_ok) (simp add: lhb headerLength_def)
  have snd: "Uint32 body = Inr (TMMBSenderSSRC p)"
    by (simp add: body_def pre_def Uint32_be32)
  have loop: "TMMB_Unmarshal_loop 0 (length es) body (q\<lparr>Entries := ents\<rparr>)
        = Some (q\<lparr>Entries := take 0 ents @ map TMMB_quantized (drop 0 es)\<rparr>, None)"
    if "length ents = length es" for q ents
    unfolding body_def using lpre ok that
    by (intro TMMB_Unmarshal_loop_ok) (auto simp: es_def)
  have short: "\<not> length (hb @ body) < headerLength + ssrcLength * 2"
    unfolding lw by (simp add: headerLength_def ssrcLength_def)
  have bad: "\<not> length (hb @ body) < unat ((L + 1) * 4)"
    unfolding lw using ex by simp
  have "TMMB_Unmarshal fmt r (hb @ body) = Some (p\<lparr>Entries := map TMMB_quantized es\<rparr>, None)"
    unfolding TMMB_Unmarshal_def Let_def hu sum.case
    using short bad
    by (simp add: sl snd ec loop TMMB_record_eq)
  then show ?thesis
    by (simp add: wire es_def)
qed

section \<open>Further facts used by the claims\<close>

lemma f32_ge_not_lt: "f32_ge a b \<Longrightarrow> \<not> f32_lt a b"
  by (simp add: f32_ge_def f32_lt_def)

lemma bitratemax_value: "f32_real bitratemax = 0x3FFFF * 2 ^ 63"
  by (simp add: f32_real_def bitratemax_fields f32_scaled_make f32_mag_make)

lemma REMB_MarshalTo_negative:
  assumes "f32_lt (Bitrate p) f32_zero" "REMB_MarshalSize p \<le> length buf"
  shows "\<exists>b. REMB_MarshalTo p buf = Some (b, Inl ErrInvalidBitrate)"
proof -
  have "\<not> length buf < REMB_MarshalSize p" using assms(2) by simp
  then show ?thesis
    unfolding REMB_MarshalTo_def Let_def putBitrate_negative [OF assms(1)]
    by (simp only: if_False option.case prod.case) blast
qed

lemma REMB_Marshal_negative:
  assumes "f32_lt (Bitrate p) f32_zero"
  shows "REMB_Marshal p = Some (Inl ErrInvalidBitrate)"
proof -
  obtain b where "REMB_MarshalTo p (replicate (REMB_MarshalSize p) 0) = Some (b, Inl ErrInvalidBitrate)"
    using REMB_MarshalTo_negative [OF assms, of "replicate (REMB_MarshalSize p) 0"] by auto
  then show ?thesis
    unfolding REMB_Marshal_def Let_def by simp
qed

lemma quantized_spec:
  assumes "f32_ge v f32_zero"
  shows "\<exists>bs. putBitrate v [0, 0, 0] = Some (bs, None) \<and> loadBitrate bs = Some (Inr (quantized v))"
  using putBitrate_ok3 [OF f32_ge_not_lt [OF assms], of "[0, 0, 0]"]
    loadBitrate_quantized [OF f32_ge_not_lt [OF assms]]
  by simp



lemma f32_zero_not_negative: "\<not> f32_lt f32_zero f32_zero"
  by (simp add: f32_lt_def)


lemma REMB_wire_num:
  assumes "\<not> f32_lt (Bitrate p) f32_zero"
  shows "unat (REMB_wire p ! 16) = length (SSRCs p) mod 256"
proof -
  have "REMB_wire p ! 16 = of_nat (length (SSRCs p))"
    by (simp add: REMB_wire_def be16_def be32_def)
  then have "unat (REMB_wire p ! 16) = unat (of_nat (length (SSRCs p)) :: u8)"
    by simp
  also have "\<dots> = length (SSRCs p) mod 2 ^ 8"
    unfolding unat_of_nat by simp
  finally show ?thesis by simp
qed

lemma loadBitrate_zero_mantissa: "loadBitrate [0, 0, 0] = Some (Inr 0x4B000000)"
  by (simp add: loadBitrate_def)

lemma loadBitrate_max: "loadBitrate [0xFF, 0xFF, 0xFF] = Some (Inr 0x67FFFFC0)"
proof -
  have "loadBitrate_loop 213 0x3FFFF = loadBitrate_loop 207 0xFFFFC0"
    by (simp add: loadBitrate_loop.simps [of _ "0x3FFFF"] loadBitrate_loop.simps [of _ "0x7FFFE"]
        loadBitrate_loop.simps [of _ "0xFFFFC"] loadBitrate_loop.simps [of _ "0x1FFFF8"]
        loadBitrate_loop.simps [of _ "0x3FFFF0"] loadBitrate_loop.simps [of _ "0x7FFFE0"] mantissamax_def)
  also have "\<dots> = Some (207, 0xFFFFC0)"
    by (simp add: loadBitrate_loop.simps [of _ "0xFFFFC0"] mantissamax_def)
  finally show ?thesis
    by (simp add: loadBitrate_def mantissamax_def)
qed

lemmas f32_eval_defs =
  f32_div_def f32_thousand_def f32_is_nan_def f32_is_inf_def f32_exp_def f32_frac_def
  f32_mag_def f32_sign_def f32_round_ratio_def flog2_ratio_def rne_div_def f32_pack_def
  f32_ge_def f32_scaled_def compute_floorlog Let_def

lemma unit_div_1: "f32_ge 0x67FFFFC0 f32_thousand \<and> f32_div 0x67FFFFC0 f32_thousand = 0x6303124E"
  by (simp add: f32_eval_defs)

lemma unit_div_2: "f32_ge 0x6303124E f32_thousand \<and> f32_div 0x6303124E f32_thousand = 0x5E06379C"
  by (simp add: f32_eval_defs)

lemma unit_div_3: "f32_ge 0x5E06379C f32_thousand \<and> f32_div 0x5E06379C f32_thousand = 0x5909703D"
  by (simp add: f32_eval_defs)

lemma unit_div_4: "f32_ge 0x5909703D f32_thousand \<and> f32_div 0x5909703D f32_thousand = 0x540CBCA9"
  by (simp add: f32_eval_defs)

lemma unit_div_5: "f32_ge 0x540CBCA9 f32_thousand \<and> f32_div 0x540CBCA9 f32_thousand = 0x4F101D59"
  by (simp add: f32_eval_defs)

lemma unit_div_6: "f32_ge 0x4F101D59 f32_thousand \<and> f32_div 0x4F101D59 f32_thousand = 0x4A1392CA"
  by (simp add: f32_eval_defs)

lemma unit_div_7: "f32_ge 0x4A1392CA f32_thousand \<and> f32_div 0x4A1392CA f32_thousand = 0x45171D7B"
  by (simp add: f32_eval_defs)

lemma bitrateUnit_loop_step:
  assumes "f32_ge b f32_thousand \<and> f32_div b f32_thousand = b'" "k < 7" "k' = k + 1"
  shows "bitrateUnit_loop b k = bitrateUnit_loop b' k'"
  using assms by (subst bitrateUnit_loop.simps) (simp add: bitUnits_def)

lemma bitrateUnit_loop_max: "bitrateUnit_loop 0x67FFFFC0 0 = 7"
proof -
  have "bitrateUnit_loop 0x67FFFFC0 0 = bitrateUnit_loop 0x6303124E 1"
    by (rule bitrateUnit_loop_step [OF unit_div_1]) simp_all
  also have "\<dots> = bitrateUnit_loop 0x5E06379C 2"
    by (rule bitrateUnit_loop_step [OF unit_div_2]) simp_all
  also have "\<dots> = bitrateUnit_loop 0x5909703D 3"
    by (rule bitrateUnit_loop_step [OF unit_div_3]) simp_all
  also have "\<dots> = bitrateUnit_loop 0x540CBCA9 4"
    by (rule bitrateUnit_loop_step [OF unit_div_4]) simp_all
  also have "\<dots> = bitrateUnit_loop 0x4F101D59 5"
    by (rule bitrateUnit_loop_step [OF unit_div_5]) simp_all
  also have "\<dots> = bitrateUnit_loop 0x4A1392CA 6"
    by (rule bitrateUnit_loop_step [OF unit_div_6]) simp_all
  also have "\<dots> = bitrateUnit_loop 0x45171D7B 7"
    by (rule bitrateUnit_loop_step [OF unit_div_7]) simp_all
  also have "\<dots> = 7"
    by (subst bitrateUnit_loop.simps) (simp add: bitUnits_def)
  finally show ?thesis .
qed

section \<open>The claims\<close>

text \<open>
  C4. For every float32 value at or above the ceiling \<open>0x3FFFF * 2^63\<close>, positive infinity
  included, \<open>putBitrate\<close> returns no error and stores exactly the bytes
  \<open>0xFF, 0xFF, 0xFF\<close> (mantissa \<open>0x3FFFF\<close>, exponent 63) into a buffer of at least three
  bytes; the value of the constant \<open>bitratemax\<close> is that ceiling.
\<close>

theorem putBitrate_saturates:
  assumes "f32_ge v bitratemax" "3 \<le> length buf"
  shows "putBitrate v buf = Some ([0xFF, 0xFF, 0xFF] @ drop 3 buf, None)
         \<and> f32_real bitratemax = 0x3FFFF * 2 ^ 63"
  using putBitrate_saturated [OF assms] bitratemax_value by simp

theorem putBitrate_saturates_witness:
  "f32_ge 0x7F800000 bitratemax \<and> 3 \<le> length [7, 8, 9 :: u8]
   \<and> putBitrate 0x7F800000 [7, 8, 9] = Some ([0xFF, 0xFF, 0xFF], None)"
proof -
  have h: "f32_ge 0x7F800000 bitratemax"
    by (simp add: f32_ge_def f32_is_nan_def f32_exp_def f32_frac_def f32_scaled_def f32_sign_def
        f32_mag_def bitratemax_def)
  have l: "3 \<le> length [7, 8, 9 :: u8]" by simp
  show ?thesis
    using h l putBitrate_saturates [OF h l] by simp
qed

text \<open>
  C5. For every negative float32 bitrate, \<open>putBitrate\<close> returns the InvalidBitrate error
  and leaves the output buffer as it was; \<open>Marshal\<close> of a REMB with a negative bitrate, and
  of a TMMBR or TMMBN with a negative bitrate in any entry, returns the InvalidBitrate
  error and no bytes.
\<close>

theorem negative_bitrate_rejected:
  "(f32_lt v f32_zero \<longrightarrow> putBitrate v buf = Some (buf, Some ErrInvalidBitrate))
   \<and> (f32_lt (Bitrate p) f32_zero \<longrightarrow> REMB_Marshal p = Some (Inl ErrInvalidBitrate))
   \<and> ((\<exists>e\<in>set (Entries t). f32_lt (EntryBitrate e) f32_zero) \<longrightarrow>
        TMMBR_Marshal t = Some (Inl ErrInvalidBitrate)
        \<and> TMMBN_Marshal t = Some (Inl ErrInvalidBitrate))"
  using putBitrate_negative [of v buf] REMB_Marshal_negative [of p]
    TMMB_Marshal_negative [of FormatTMMBR t] TMMB_Marshal_negative [of FormatTMMBN t]
  by (simp add: TMMBR_Marshal_def TMMBN_Marshal_def)

theorem negative_bitrate_rejected_witness:
  "f32_lt 0xBF800000 f32_zero
   \<and> putBitrate 0xBF800000 [1, 2, 3] = Some ([1, 2, 3], Some ErrInvalidBitrate)
   \<and> REMB_Marshal \<lparr>SenderSSRC = 1, Bitrate = 0xBF800000, SSRCs = [5]\<rparr>
       = Some (Inl ErrInvalidBitrate)
   \<and> TMMBR_Marshal \<lparr>TMMBSenderSSRC = 1, Entries =
         [\<lparr>MediaSSRC = 7, EntryBitrate = 0x4B0837C0\<rparr>, \<lparr>MediaSSRC = 9, EntryBitrate = 0xBF800000\<rparr>]\<rparr>
       = Some (Inl ErrInvalidBitrate)
   \<and> TMMBN_Marshal \<lparr>TMMBSenderSSRC = 1, Entries =
         [\<lparr>MediaSSRC = 7, EntryBitrate = 0x4B0837C0\<rparr>, \<lparr>MediaSSRC = 9, EntryBitrate = 0xBF800000\<rparr>]\<rparr>
       = Some (Inl ErrInvalidBitrate)"
proof -
  have h: "f32_lt 0xBF800000 f32_zero"
    by (simp add: f32_lt_def f32_is_nan_def f32_exp_def f32_frac_def f32_scaled_def f32_sign_def
        f32_mag_def f32_zero_def)
  show ?thesis
    using h negative_bitrate_rejected [of "0xBF800000" "[1, 2, 3]"
        "\<lparr>SenderSSRC = 1, Bitrate = 0xBF800000, SSRCs = [5]\<rparr>"
        "\<lparr>TMMBSenderSSRC = 1, Entries =
         [\<lparr>MediaSSRC = 7, EntryBitrate = 0x4B0837C0\<rparr>, \<lparr>MediaSSRC = 9, EntryBitrate = 0xBF800000\<rparr>]\<rparr>"]
    by simp
qed

text \<open>
  C1. For every REMB, TMMBR and TMMBN value whose bitrate fields are non-negative and whose
  list fits the wire fields (at most 255 SSRCs for the one-byte count of REMB, at most
  32766 entries for the 16-bit length of TMMBR and TMMBN), \<open>Marshal\<close> returns bytes, and
  \<open>Unmarshal\<close> of those bytes into any receiver returns no error and leaves the receiver
  equal to the packet, except that each bitrate field holds \<open>quantized\<close> of the original:
  the value \<open>loadBitrate\<close> reads from the three bytes \<open>putBitrate\<close> stores for it.
\<close>

theorem marshal_unmarshal_roundtrip:
  assumes "f32_ge (Bitrate p) f32_zero" "length (SSRCs p) \<le> 255"
    and "\<forall>e\<in>set (Entries t). f32_ge (EntryBitrate e) f32_zero" "length (Entries t) \<le> 32766"
  shows "(\<exists>buf. REMB_Marshal p = Some (Inr buf)
            \<and> REMB_Unmarshal r buf = Some (p\<lparr>Bitrate := quantized (Bitrate p)\<rparr>, None))
       \<and> (\<exists>buf. TMMBR_Marshal t = Some (Inr buf)
            \<and> TMMBR_Unmarshal u buf = Some (t\<lparr>Entries := map TMMB_quantized (Entries t)\<rparr>, None))
       \<and> (\<exists>buf. TMMBN_Marshal t = Some (Inr buf)
            \<and> TMMBN_Unmarshal u buf = Some (t\<lparr>Entries := map TMMB_quantized (Entries t)\<rparr>, None))
       \<and> (\<exists>bs. putBitrate (Bitrate p) [0, 0, 0] = Some (bs, None)
            \<and> loadBitrate bs = Some (Inr (quantized (Bitrate p))))
       \<and> (\<forall>e\<in>set (Entries t). \<exists>bs. putBitrate (EntryBitrate e) [0, 0, 0] = Some (bs, None)
            \<and> loadBitrate bs = Some (Inr (EntryBitrate (TMMB_quantized e))))"
proof -
  have p: "\<not> f32_lt (Bitrate p) f32_zero"
    using assms(1) by (rule f32_ge_not_lt)
  have t: "\<forall>e\<in>set (Entries t). \<not> f32_lt (EntryBitrate e) f32_zero"
    using assms(3) by (auto dest: f32_ge_not_lt)
  have "REMB_Marshal p = Some (Inr (REMB_wire p))"
    using p by (rule REMB_Marshal_ok)
  moreover have "REMB_Unmarshal r (REMB_wire p) = Some (p\<lparr>Bitrate := quantized (Bitrate p)\<rparr>, None)"
    using p assms(2) by (rule REMB_roundtrip)
  moreover have "TMMBR_Marshal t = Some (Inr (TMMB_wire FormatTMMBR t))"
    unfolding TMMBR_Marshal_def using t by (intro TMMB_Marshal_ok) auto
  moreover have "TMMBR_Unmarshal u (TMMB_wire FormatTMMBR t)
      = Some (t\<lparr>Entries := map TMMB_quantized (Entries t)\<rparr>, None)"
    unfolding TMMBR_Unmarshal_def using t assms(4) by (intro TMMB_roundtrip) auto
  moreover have "TMMBN_Marshal t = Some (Inr (TMMB_wire FormatTMMBN t))"
    unfolding TMMBN_Marshal_def using t by (intro TMMB_Marshal_ok) auto
  moreover have "TMMBN_Unmarshal u (TMMB_wire FormatTMMBN t)
      = Some (t\<lparr>Entries := map TMMB_quantized (Entries t)\<rparr>, None)"
    unfolding TMMBN_Unmarshal_def using t assms(4) by (intro TMMB_roundtrip) auto
  moreover have "\<exists>bs. putBitrate (Bitrate p) [0, 0, 0] = Some (bs, None)
            \<and> loadBitrate bs = Some (Inr (quantized (Bitrate p)))"
    using assms(1) by (rule quantized_spec)
  moreover have "\<forall>e\<in>set (Entries t). \<exists>bs. putBitrate (EntryBitrate e) [0, 0, 0] = Some (bs, None)
            \<and> loadBitrate bs = Some (Inr (EntryBitrate (TMMB_quantized e)))"
    using assms(3) quantized_spec by (simp add: TMMB_quantized_def)
  ultimately show ?thesis by simp
qed

theorem marshal_unmarshal_roundtrip_witness:
  "f32_ge 0x4B0837C0 f32_zero \<and> f32_ge 0x4B0837BF f32_zero
   \<and> (\<exists>buf. REMB_Marshal \<lparr>SenderSSRC = 1, Bitrate = 0x4B0837C0, SSRCs = [1215622422]\<rparr> = Some (Inr buf)
         \<and> REMB_Unmarshal \<lparr>SenderSSRC = 0, Bitrate = 0, SSRCs = []\<rparr> buf
           = Some (\<lparr>SenderSSRC = 1, Bitrate = quantized 0x4B0837C0, SSRCs = [1215622422]\<rparr>, None))
   \<and> (\<exists>buf. TMMBN_Marshal \<lparr>TMMBSenderSSRC = 1,
                 Entries = [\<lparr>MediaSSRC = 1215622422, EntryBitrate = 0x4B0837BF\<rparr>]\<rparr> = Some (Inr buf)
         \<and> TMMBN_Unmarshal \<lparr>TMMBSenderSSRC = 0, Entries = []\<rparr> buf
           = Some (\<lparr>TMMBSenderSSRC = 1,
                 Entries = [\<lparr>MediaSSRC = 1215622422, EntryBitrate = quantized 0x4B0837BF\<rparr>]\<rparr>, None))"
proof -
  have a: "f32_ge 0x4B0837C0 f32_zero"
    by (simp add: f32_ge_def f32_is_nan_def f32_exp_def f32_frac_def f32_scaled_def f32_sign_def
        f32_mag_def f32_zero_def)
  have b: "f32_ge 0x4B0837BF f32_zero"
    by (simp add: f32_ge_def f32_is_nan_def f32_exp_def f32_frac_def f32_scaled_def f32_sign_def
        f32_mag_def f32_zero_def)
  let ?p = "\<lparr>SenderSSRC = 1, Bitrate = 0x4B0837C0, SSRCs = [1215622422]\<rparr>"
  let ?t = "\<lparr>TMMBSenderSSRC = 1, Entries = [\<lparr>MediaSSRC = 1215622422, EntryBitrate = 0x4B0837BF\<rparr>]\<rparr>"
  have "f32_ge (Bitrate ?p) f32_zero" "length (SSRCs ?p) \<le> 255"
    "\<forall>e\<in>set (Entries ?t). f32_ge (EntryBitrate e) f32_zero" "length (Entries ?t) \<le> 32766"
    using a b by simp_all
  from marshal_unmarshal_roundtrip [OF this,
      of "\<lparr>SenderSSRC = 0, Bitrate = 0, SSRCs = []\<rparr>" "\<lparr>TMMBSenderSSRC = 0, Entries = []\<rparr>"]
  show ?thesis
    using a b by (simp add: TMMB_quantized_def)
qed

text \<open>
  C9, as amended. For every REMB, TMMBR and TMMBN value, \<open>MarshalSize\<close> is a positive
  multiple of 4 and the \<open>Length\<close> of the header returned by \<open>Header\<close> is
  \<open>MarshalSize / 4 - 1\<close> reduced modulo \<open>2^16\<close> by the conversion to \<^verbatim>\<open>uint16\<close>; it is
  \<open>MarshalSize / 4 - 1\<close> itself when a REMB has at most 65531 SSRCs and a TMMBR or TMMBN
  at most 32766 entries. With 32767 entries the field is 0, not 65536.
\<close>

theorem header_length_modulo:
  "0 < REMB_MarshalSize p \<and> 4 dvd REMB_MarshalSize p
   \<and> unat (Length (REMB_Header p)) = (REMB_MarshalSize p div 4 - 1) mod 2 ^ 16
   \<and> (length (SSRCs p) \<le> 65531 \<longrightarrow> unat (Length (REMB_Header p)) = REMB_MarshalSize p div 4 - 1)
   \<and> 0 < TMMB_MarshalSize t \<and> 4 dvd TMMB_MarshalSize t
   \<and> unat (Length (TMMBR_Header t)) = (TMMB_MarshalSize t div 4 - 1) mod 2 ^ 16
   \<and> unat (Length (TMMBN_Header t)) = (TMMB_MarshalSize t div 4 - 1) mod 2 ^ 16
   \<and> (length (Entries t) \<le> 32766 \<longrightarrow>
        unat (Length (TMMBR_Header t)) = TMMB_MarshalSize t div 4 - 1
        \<and> unat (Length (TMMBN_Header t)) = TMMB_MarshalSize t div 4 - 1)"
proof -
  have r: "REMB_MarshalSize p div 4 - 1 = 4 + length (SSRCs p)"
    by (simp add: REMB_MarshalSize_def)
  have m: "TMMB_MarshalSize t div 4 - 1 = 2 + 2 * length (Entries t)"
    by (simp add: TMMB_MarshalSize_def headerLength_def ssrcLength_def)
  have rl: "unat (Length (REMB_Header p)) = (REMB_MarshalSize p div 4 - 1) mod 2 ^ 16"
    unfolding REMB_Header_def by (simp add: unat_of_nat)
  have tl: "unat (Length (TMMB_Header fmt t)) = (TMMB_MarshalSize t div 4 - 1) mod 2 ^ 16" for fmt
    unfolding TMMB_Header_def by (simp add: unat_of_nat)
  have "0 < REMB_MarshalSize p" "4 dvd REMB_MarshalSize p"
    by (simp_all add: REMB_MarshalSize_def)
  moreover have "0 < TMMB_MarshalSize t" "4 dvd TMMB_MarshalSize t"
    by (simp_all add: TMMB_MarshalSize_def headerLength_def ssrcLength_def)
  moreover have "length (SSRCs p) \<le> 65531 \<longrightarrow> (REMB_MarshalSize p div 4 - 1) mod 2 ^ 16 = REMB_MarshalSize p div 4 - 1"
    unfolding r by simp
  moreover have "length (Entries t) \<le> 32766 \<longrightarrow> (TMMB_MarshalSize t div 4 - 1) mod 2 ^ 16 = TMMB_MarshalSize t div 4 - 1"
    unfolding m by simp
  ultimately show ?thesis
    by (simp add: rl tl TMMBR_Header_def TMMBN_Header_def)
qed

theorem header_length_modulo_witness:
  "length [1, 2 :: u32] \<le> 65531
   \<and> length [\<lparr>MediaSSRC = 1000, EntryBitrate = f32_zero\<rparr>] \<le> 32766
   \<and> unat (Length (REMB_Header \<lparr>SenderSSRC = 1, Bitrate = f32_zero, SSRCs = [1, 2]\<rparr>)) = 6
   \<and> REMB_MarshalSize \<lparr>SenderSSRC = 1, Bitrate = f32_zero, SSRCs = [1, 2]\<rparr> = 28
   \<and> unat (Length (TMMBN_Header \<lparr>TMMBSenderSSRC = 1,
         Entries = [\<lparr>MediaSSRC = 1000, EntryBitrate = f32_zero\<rparr>]\<rparr>)) = 4
   \<and> unat (Length (TMMBR_Header \<lparr>TMMBSenderSSRC = 1,
         Entries = [\<lparr>MediaSSRC = 1000, EntryBitrate = f32_zero\<rparr>]\<rparr>)) = 4"
  using header_length_modulo [of "\<lparr>SenderSSRC = 1, Bitrate = f32_zero, SSRCs = [1, 2]\<rparr>"
      "\<lparr>TMMBSenderSSRC = 1, Entries = [\<lparr>MediaSSRC = 1000, EntryBitrate = f32_zero\<rparr>]\<rparr>"]
  by (simp add: REMB_MarshalSize_def TMMB_MarshalSize_def headerLength_def ssrcLength_def)

theorem header_length_counterexample:
  "unat (Length (TMMBN_Header \<lparr>TMMBSenderSSRC = 0,
       Entries = replicate 32767 \<lparr>MediaSSRC = 0, EntryBitrate = f32_zero\<rparr>\<rparr>))
   \<noteq> TMMB_MarshalSize \<lparr>TMMBSenderSSRC = 0,
       Entries = replicate 32767 \<lparr>MediaSSRC = 0, EntryBitrate = f32_zero\<rparr>\<rparr> div 4 - 1"
  by (simp add: TMMBN_Header_def TMMB_Header_def TMMB_MarshalSize_def headerLength_def ssrcLength_def)




text \<open>
  C6, as amended. \<open>Marshal\<close> of a REMB does not look at the number of SSRCs. With a
  bitrate that is not negative it returns \<open>MarshalSize\<close> bytes, as does \<open>MarshalTo\<close> on a
  buffer of that size, and the Num SSRC byte is the count modulo 256
  (\<^verbatim>\<open>byte(len(p.SSRCs))\<close> truncates); with a negative bitrate it returns the InvalidBitrate
  error. A REMB with 256 SSRCs marshals to 1044 bytes without an error.
\<close>

theorem remb_marshal_ignores_count:
  "(\<not> f32_lt (Bitrate p) f32_zero \<longrightarrow>
      (\<exists>buf. REMB_Marshal p = Some (Inr buf)
         \<and> REMB_MarshalTo p (replicate (REMB_MarshalSize p) 0) = Some (buf, Inr (REMB_MarshalSize p))
         \<and> length buf = REMB_MarshalSize p
         \<and> unat (buf ! 16) = length (SSRCs p) mod 256))
   \<and> (f32_lt (Bitrate p) f32_zero \<longrightarrow> REMB_Marshal p = Some (Inl ErrInvalidBitrate))"
  using REMB_Marshal_ok [of p] REMB_MarshalTo_ok [of p] length_REMB_wire [of p] REMB_wire_num [of p]
    REMB_Marshal_negative [of p]
  by simp

theorem remb_marshal_ignores_count_witness:
  "\<not> f32_lt f32_zero f32_zero \<and> 255 < length (replicate 256 (0 :: u32))
   \<and> (\<exists>buf. REMB_Marshal \<lparr>SenderSSRC = 1, Bitrate = f32_zero, SSRCs = replicate 256 0\<rparr> = Some (Inr buf)
         \<and> length buf = 1044 \<and> unat (buf ! 16) = 0)"
  using remb_marshal_ignores_count [of "\<lparr>SenderSSRC = 1, Bitrate = f32_zero, SSRCs = replicate 256 0\<rparr>"]
    f32_zero_not_negative
  by (auto simp: REMB_MarshalSize_def)

theorem remb_256_ssrcs_counterexample:
  "255 < length (SSRCs \<lparr>SenderSSRC = 1, Bitrate = f32_zero, SSRCs = replicate 256 0\<rparr>)
   \<and> REMB_Marshal \<lparr>SenderSSRC = 1, Bitrate = f32_zero, SSRCs = replicate 256 0\<rparr>
     = Some (Inr (REMB_wire \<lparr>SenderSSRC = 1, Bitrate = f32_zero, SSRCs = replicate 256 0\<rparr>))
   \<and> REMB_MarshalTo \<lparr>SenderSSRC = 1, Bitrate = f32_zero, SSRCs = replicate 256 0\<rparr> (replicate 1044 0)
     = Some (REMB_wire \<lparr>SenderSSRC = 1, Bitrate = f32_zero, SSRCs = replicate 256 0\<rparr>, Inr 1044)"
proof -
  let ?p = "\<lparr>SenderSSRC = 1, Bitrate = f32_zero, SSRCs = replicate 256 0\<rparr>"
  have ok: "\<not> f32_lt (Bitrate ?p) f32_zero"
    by (simp add: f32_zero_not_negative)
  have sz: "REMB_MarshalSize ?p = 1044"
    by (simp add: REMB_MarshalSize_def)
  show ?thesis
    using REMB_Marshal_ok [OF ok] REMB_MarshalTo_ok [OF ok] unfolding sz by simp
qed

text \<open>
  C3. The claim is that no input makes \<open>TMMBN.Unmarshal\<close> or \<open>TMMBR.Unmarshal\<close> read out
  of bounds. On the 12-byte packet with length field 0 the code passes both length checks
  (\<open>(0 + 1) * 4 = 4 \<le> 12\<close>), computes \<open>entryCount = (0 - 2) / 2 = 32767\<close> in 16 bits, and
  the first iteration of the entry loop reads four bytes at body offset 8 of an 8-byte
  body: the call panics.
\<close>

theorem tmmb_unmarshal_out_of_bounds:
  "map_option snd (TMMBN_Unmarshal \<lparr>TMMBSenderSSRC = 0, Entries = []\<rparr>
                     [132, 205, 0, 0, 0, 0, 0, 1, 0, 0, 0, 0]) = Some (Some RuntimePanic)
   \<and> map_option snd (TMMBR_Unmarshal \<lparr>TMMBSenderSSRC = 0, Entries = []\<rparr>
                     [131, 205, 0, 0, 0, 0, 0, 1, 0, 0, 0, 0]) = Some (Some RuntimePanic)"
proof -
  have loop: "map_option snd (TMMB_Unmarshal_loop 0 32767 [0, 0, 0, 1, 0, 0, 0, 0] q)
              = Some (Some RuntimePanic)" for q
    by (subst TMMB_Unmarshal_loop.simps)
      (simp add: Uint32_from_def slice_from_def Uint32_def ssrcLength_def)
  show ?thesis
    unfolding TMMBN_Unmarshal_def TMMBR_Unmarshal_def TMMB_Unmarshal_def Let_def
    by (simp add: Header_Unmarshal_def headerLength_def ssrcLength_def slice_from_def Uint32_def
        TypeTransportSpecificFeedback_def FormatTMMBN_def FormatTMMBR_def loop)
qed

text \<open>
  C7. The claim is that \<open>REMB.Unmarshal\<close> derives \<open>size = (length + 1) * 4\<close> exactly and
  rejects a buffer shorter than it with PacketTooShort. On a 20-byte buffer whose length
  field is \<open>0x4004\<close> the exact size is 65556, but the 16-bit product is 20: the packet is
  accepted and the receiver populated.
\<close>

theorem remb_unmarshal_length_wraps:
  "REMB_Unmarshal r [143, 206, 0x40, 0x04, 0, 0, 0, 1, 0, 0, 0, 0, 0x52, 0x45, 0x4D, 0x42, 0, 0, 0, 0]
     = Some (r\<lparr>SenderSSRC := 1, Bitrate := 0x4B000000, SSRCs := []\<rparr>, None)
   \<and> (unat (0x4004 :: u16) + 1) * 4 = 65556
   \<and> unat ((0x4004 + 1) * 4 :: u16) = 20"
proof -
  have loop: "REMB_Unmarshal_loop 20 20 b q = (q, None)" for b q
    by (subst REMB_Unmarshal_loop.simps) simp
  have lb: "loadBitrate [0, 0, 0] = Some (Inr 0x4B000000)"
    by (rule loadBitrate_zero_mantissa)
  show ?thesis
    unfolding REMB_Unmarshal_def Let_def
    by (simp add: Uint32_at_def slice_def Uint32_def lb loop)
qed

text \<open>
  C10. The claim is that the index \<open>bitrateUnit\<close> computes never leaves the seven-element
  table. For the largest decoded bitrate, \<open>loadBitrate\<close> of \<open>FF FF FF\<close>, the loop divides
  seven times (its bound is \<^verbatim>\<open>powers < len(bitUnits)\<close>) and leaves index 7:
  \<^verbatim>\<open>bitUnits[7]\<close> panics.
\<close>

theorem bitrateUnit_index_out_of_range:
  "loadBitrate [0xFF, 0xFF, 0xFF] = Some (Inr 0x67FFFFC0)
   \<and> bitrateUnit_loop 0x67FFFFC0 0 = 7 \<and> length bitUnits = 7
   \<and> bitrateUnit 0x67FFFFC0 = Inl RuntimePanic"
  using loadBitrate_max bitrateUnit_loop_max
  by (simp add: bitrateUnit_def bitUnits_def)


end
